theory Spec2Isabelle
  imports Main
begin

section \<open>Values, failures and effects\<close>

text \<open>
  The library wraps a store client in effect descriptions. An effect of type
  \<open>Effect<A, RedisError>\<close> is modelled as a function from the state of the system to
  an exit value and the next state. An exit is a success, a failure in the typed error
  channel (the single error kind \<open>RedisError\<close>, carrying its cause), or a defect: an
  exception thrown while the body of \<open>Effect.gen\<close> runs, which the effect runtime does
  not put in the error channel.
\<close>

type_synonym cause = string

type_synonym arg = string

datatype redis_error = RedisError (cause: cause)

datatype 'a exit = Success 'a | Failure redis_error | Die cause

text \<open>The outcome of a promise: the value it resolves to, or the reason it rejects with.\<close>

datatype 'a settled = Resolved 'a | Rejected cause

type_synonym ('s, 'a) effect = "'s \<Rightarrow> 'a exit \<times> 's"

definition succeed :: "'a \<Rightarrow> ('s, 'a) effect" where
  "succeed a s = (Success a, s)"

text \<open>\<open>const x = yield* m; ...\<close> inside \<open>Effect.gen\<close>: the rest runs only when \<open>m\<close> succeeds.\<close>

definition andThen :: "('s, 'a) effect \<Rightarrow> ('a \<Rightarrow> ('s, 'b) effect) \<Rightarrow> ('s, 'b) effect" where
  "andThen m f s =
     (case m s of
        (Success a, s') \<Rightarrow> f a s'
      | (Failure e, s') \<Rightarrow> (Failure e, s')
      | (Die d, s') \<Rightarrow> (Die d, s'))"

text \<open>\<open>Effect.tryPromise({ try, catch })\<close>: a rejection is mapped through \<open>catch\<close> into
  the error channel.\<close>

definition tryPromise ::
  "(cause \<Rightarrow> redis_error) \<Rightarrow> ('s \<Rightarrow> 'a settled \<times> 's) \<Rightarrow> ('s, 'a) effect" where
  "tryPromise catch try s =
     (case try s of
        (Resolved v, s') \<Rightarrow> (Success v, s')
      | (Rejected e, s') \<Rightarrow> (Failure (catch e), s'))"

section \<open>The underlying client\<close>

text \<open>
  The store client is an external collaborator, so it is a parameter of the model: a
  record of its operations over an arbitrary world \<open>'w\<close> (connection, store, queues).
  The objects on which methods are looked up are the live client, a queuing handle
  returned by \<open>c.multi()\<close>, and the \<open>json\<close> sub-object of either.
\<close>

datatype 'h obj = Client | ClientJson | Batch 'h | BatchJson 'h

record ('w, 'h, 'r) client =
  has :: "'h obj \<Rightarrow> string \<Rightarrow> bool"
  send :: "'h obj \<Rightarrow> string \<Rightarrow> arg list \<Rightarrow> 'w \<Rightarrow> 'r settled \<times> 'w"
  enqueue :: "'h obj \<Rightarrow> string \<Rightarrow> arg list \<Rightarrow> 'w \<Rightarrow> 'w"
  newBatch :: "'w \<Rightarrow> 'h \<times> 'w"
  execBatch :: "'h \<Rightarrow> 'w \<Rightarrow> 'r list option settled \<times> 'w"
  execBatchAsPipeline :: "'h \<Rightarrow> 'w \<Rightarrow> 'r list settled \<times> 'w"

text \<open>
  The state of the system is the client's world together with the log of the method
  calls made on the client so far, in order.
\<close>

datatype 'h call =
    Invoke "'h obj" string "arg list"
  | MultiCall 'h
  | Exec 'h
  | ExecAsPipeline 'h

record ('w, 'h) sys =
  world :: 'w
  calls :: "'h call list"

text \<open>\<open>c.multi()\<close>, which returns a handle and is taken not to throw.\<close>

definition c_multi :: "('w, 'h, 'r) client \<Rightarrow> ('w, 'h) sys \<Rightarrow> 'h \<times> ('w, 'h) sys" where
  "c_multi c s =
     (case newBatch c (world s) of
        (h, w) \<Rightarrow> (h, \<lparr>world = w, calls = calls s @ [MultiCall h]\<rparr>))"

text \<open>\<open>txClient.exec()\<close>\<close>

definition tx_exec ::
  "('w, 'h, 'r) client \<Rightarrow> 'h \<Rightarrow> ('w, 'h) sys \<Rightarrow> 'r list option settled \<times> ('w, 'h) sys" where
  "tx_exec c h s =
     (case execBatch c h (world s) of
        (p, w) \<Rightarrow> (p, \<lparr>world = w, calls = calls s @ [Exec h]\<rparr>))"

text \<open>\<open>txClient.execAsPipeline()\<close>\<close>

definition tx_execAsPipeline ::
  "('w, 'h, 'r) client \<Rightarrow> 'h \<Rightarrow> ('w, 'h) sys \<Rightarrow> 'r list settled \<times> ('w, 'h) sys" where
  "tx_execAsPipeline c h s =
     (case execBatchAsPipeline c h (world s) of
        (p, w) \<Rightarrow> (p, \<lparr>world = w, calls = calls s @ [ExecAsPipeline h]\<rparr>))"

text \<open>\<open>handle[name](...args)\<close> on the live client: a promise of the reply.\<close>

definition invoke_async ::
  "('w, 'h, 'r) client \<Rightarrow> 'h obj \<Rightarrow> string \<Rightarrow> arg list \<Rightarrow> ('w, 'h) sys
     \<Rightarrow> 'r settled \<times> ('w, 'h) sys" where
  "invoke_async c handle name args s =
     (case send c handle name args (world s) of
        (p, w) \<Rightarrow> (p, \<lparr>world = w, calls = calls s @ [Invoke handle name args]\<rparr>))"

text \<open>\<open>handle[name](...args)\<close> on a queuing handle: the handle itself comes back.\<close>

definition invoke_queue ::
  "('w, 'h, 'r) client \<Rightarrow> 'h obj \<Rightarrow> string \<Rightarrow> arg list \<Rightarrow> ('w, 'h) sys \<Rightarrow> ('w, 'h) sys" where
  "invoke_queue c handle name args s =
     \<lparr>world = enqueue c handle name args (world s),
      calls = calls s @ [Invoke handle name args]\<rparr>"

section \<open>The command group factory (helpers)\<close>

type_synonym ('w, 'h, 'r) async_fn = "arg list \<Rightarrow> (('w, 'h) sys, 'r) effect"

type_synonym ('w, 'h) queue_fn = "arg list \<Rightarrow> (('w, 'h) sys, unit) effect"

text \<open>
  Modelled from the spec: \<open>AsyncExec\<close> of the helpers module, which is not among the
  sources. The Immediate strategy invokes the method of the same name, and wraps a
  failure of the call into the unified error, keeping the cause; a value is passed on
  unchanged.
\<close>

definition AsyncExec ::
  "('w, 'h, 'r) client \<Rightarrow> 'h obj \<Rightarrow> string \<Rightarrow> ('w, 'h, 'r) async_fn" where
  "AsyncExec c handle name args = tryPromise RedisError (invoke_async c handle name args)"

text \<open>
  Modelled from the spec: \<open>QueueExec\<close> of the helpers module, which is not among the
  sources. The Queued strategy forwards the call to the queuing handle's method of the
  same name, which records the command and returns the handle; the returned handle is
  dropped.
\<close>

definition QueueExec ::
  "('w, 'h, 'r) client \<Rightarrow> 'h obj \<Rightarrow> string \<Rightarrow> ('w, 'h) queue_fn" where
  "QueueExec c handle name args s = (Success (), invoke_queue c handle name args s)"

text \<open>
  Modelled from the spec: \<open>makeCommandGroup\<close> of the helpers module, which is not among
  the sources. One entry per name, each the strategy's callable for that name on the
  handle; a name that is not a callable member of the handle makes the construction
  throw. Nothing but the table is produced: the function takes and returns no state.
\<close>

definition makeCommandGroup ::
  "('w, 'h, 'r) client \<Rightarrow> 'h obj \<Rightarrow> string list
     \<Rightarrow> (('w, 'h, 'r) client \<Rightarrow> 'h obj \<Rightarrow> string \<Rightarrow> 'f) \<Rightarrow> cause + (string \<rightharpoonup> 'f)" where
  "makeCommandGroup c handle names strategy =
     (case filter (\<lambda>n. \<not> has c handle n) names of
        [] \<Rightarrow> Inr (map_of (map (\<lambda>n. (n, strategy c handle n)) names))
      | n # _ \<Rightarrow> Inl (''TypeError: '' @ n @ '' is not a function''))"

section \<open>Command families\<close>

subsection \<open>HyperLogLog (commands/hyper-log-log.ts)\<close>

definition redisHyperLogLogKeys :: "string list" where
  "redisHyperLogLogKeys = [''pfAdd'', ''pfCount'', ''pfMerge'']"

definition makeRedisHyperLogLog ::
  "('w, 'h, 'r) client \<Rightarrow> 'h obj \<Rightarrow> cause + (string \<rightharpoonup> ('w, 'h, 'r) async_fn)" where
  "makeRedisHyperLogLog c client = makeCommandGroup c client redisHyperLogLogKeys AsyncExec"

definition makeRedisHyperLogLogQueue ::
  "('w, 'h, 'r) client \<Rightarrow> 'h obj \<Rightarrow> cause + (string \<rightharpoonup> ('w, 'h) queue_fn)" where
  "makeRedisHyperLogLogQueue c client = makeCommandGroup c client redisHyperLogLogKeys QueueExec"

subsection \<open>Geospatial (commands/geospatial.ts)\<close>

definition redisGeoSpatialKeys :: "string list" where
  "redisGeoSpatialKeys =
     [''geoAdd'', ''geoDist'', ''geoHash'', ''geoPos'', ''geoRadius'', ''geoRadiusByMember'',
      ''geoRadiusByMemberRo'', ''geoRadiusRo'', ''geoSearch'', ''geoSearchStore'']"

definition makeRedisGeoSpatial ::
  "('w, 'h, 'r) client \<Rightarrow> 'h obj \<Rightarrow> cause + (string \<rightharpoonup> ('w, 'h, 'r) async_fn)" where
  "makeRedisGeoSpatial c client = makeCommandGroup c client redisGeoSpatialKeys AsyncExec"

definition makeRedisGeoSpatialQueue ::
  "('w, 'h, 'r) client \<Rightarrow> 'h obj \<Rightarrow> cause + (string \<rightharpoonup> ('w, 'h) queue_fn)" where
  "makeRedisGeoSpatialQueue c client = makeCommandGroup c client redisGeoSpatialKeys QueueExec"

subsection \<open>The families whose files are not among the sources\<close>

text \<open>
  The name lists of the bitmap, generic, hash, list, scripting, set, sorted-set, string
  and JSON families are parameters.
\<close>

record families =
  bitmapKeys :: "string list"
  genericKeys :: "string list"
  hashKeys :: "string list"
  listKeys :: "string list"
  scriptingKeys :: "string list"
  setKeys :: "string list"
  sortedSetKeys :: "string list"
  stringKeys :: "string list"
  jsonKeys :: "string list"

text \<open>
  Modelled from the spec: the constructors of the families whose files are not among the
  sources (\<open>makeRedisBitmap\<close>, \<open>makeRedisBitmapQueue\<close>, and so on). Each family is its
  name list compiled by the factory, once per strategy, with no logic of its own.
\<close>

definition makeRedisFamily ::
  "string list \<Rightarrow> ('w, 'h, 'r) client \<Rightarrow> 'h obj \<Rightarrow> cause + (string \<rightharpoonup> ('w, 'h, 'r) async_fn)" where
  "makeRedisFamily keys c client = makeCommandGroup c client keys AsyncExec"

definition makeRedisFamilyQueue ::
  "string list \<Rightarrow> ('w, 'h, 'r) client \<Rightarrow> 'h obj \<Rightarrow> cause + (string \<rightharpoonup> ('w, 'h) queue_fn)" where
  "makeRedisFamilyQueue keys c client = makeCommandGroup c client keys QueueExec"

text \<open>
  Modelled from the spec: the JSON family (\<open>makeRedisJson\<close>, \<open>makeRedisJsonQueue\<close>), whose
  file is not among the sources. It is built like the others, over the \<open>json\<close>
  sub-object of the handle.
\<close>

fun jsonOf :: "'h obj \<Rightarrow> 'h obj" where
  "jsonOf Client = ClientJson"
| "jsonOf (Batch h) = BatchJson h"
| "jsonOf ClientJson = ClientJson"
| "jsonOf (BatchJson h) = BatchJson h"

definition makeRedisJson ::
  "string list \<Rightarrow> ('w, 'h, 'r) client \<Rightarrow> 'h obj \<Rightarrow> cause + (string \<rightharpoonup> ('w, 'h, 'r) async_fn)" where
  "makeRedisJson keys c client = makeCommandGroup c (jsonOf client) keys AsyncExec"

definition makeRedisJsonQueue ::
  "string list \<Rightarrow> ('w, 'h, 'r) client \<Rightarrow> 'h obj \<Rightarrow> cause + (string \<rightharpoonup> ('w, 'h) queue_fn)" where
  "makeRedisJsonQueue keys c client = makeCommandGroup c (jsonOf client) keys QueueExec"

section \<open>The core aggregate (core/index.ts)\<close>

text \<open>
  An object literal \<open>{...a, ...b, k: v}\<close> evaluates its parts from left to right; a later
  property replaces an earlier one of the same name, and the first part that throws ends
  the evaluation.
\<close>

fun spread :: "(cause + (string \<rightharpoonup> 'f)) list \<Rightarrow> cause + (string \<rightharpoonup> 'f)" where
  "spread [] = Inr Map.empty"
| "spread (g # gs) =
     (case g of
        Inl e \<Rightarrow> Inl e
      | Inr t \<Rightarrow> (case spread gs of Inl e \<Rightarrow> Inl e | Inr ts \<Rightarrow> Inr (t ++ ts)))"

record ('w, 'h) RedisTxShape =
  tx_commands :: "string \<rightharpoonup> ('w, 'h) queue_fn"
  tx_json :: "string \<rightharpoonup> ('w, 'h) queue_fn"

definition makeRedisTx ::
  "families \<Rightarrow> ('w, 'h, 'r) client \<Rightarrow> 'h obj \<Rightarrow> cause + ('w, 'h) RedisTxShape" where
  "makeRedisTx K env c =
     (case spread
        [makeRedisFamilyQueue (bitmapKeys K) env c,
         makeRedisFamilyQueue (genericKeys K) env c,
         makeRedisFamilyQueue (hashKeys K) env c,
         makeRedisHyperLogLogQueue env c,
         makeRedisFamilyQueue (listKeys K) env c,
         makeRedisFamilyQueue (scriptingKeys K) env c,
         makeRedisFamilyQueue (setKeys K) env c,
         makeRedisFamilyQueue (sortedSetKeys K) env c,
         makeRedisFamilyQueue (stringKeys K) env c,
         makeRedisGeoSpatialQueue env c] of
        Inl e \<Rightarrow> Inl e
      | Inr t \<Rightarrow>
          (case makeRedisJsonQueue (jsonKeys K) env c of
             Inl e \<Rightarrow> Inl e
           | Inr j \<Rightarrow> Inr \<lparr>tx_commands = t |` (- {''json''}), tx_json = j\<rparr>))"

text \<open>
  The members \<open>multi\<close> and \<open>pipeline\<close> of the aggregate. Both are the body of an
  \<open>Effect.gen\<close>: a handle from \<open>c.multi()\<close>, the queued surface over it, the caller's
  program, then the execution of the batch inside \<open>Effect.tryPromise\<close>.
\<close>

definition multi ::
  "families \<Rightarrow> ('w, 'h, 'r) client
     \<Rightarrow> (('w, 'h) RedisTxShape \<Rightarrow> (('w, 'h) sys, 'a) effect)
     \<Rightarrow> (('w, 'h) sys, 'a \<times> 'r list option) effect" where
  "multi K c program s =
     (case c_multi c s of
        (txClient, s1) \<Rightarrow>
          (case makeRedisTx K c (Batch txClient) of
             Inl d \<Rightarrow> (Die d, s1)
           | Inr txApi \<Rightarrow>
               andThen (program txApi) (\<lambda>programResult.
               andThen (tryPromise RedisError (tx_exec c txClient)) (\<lambda>execResult.
               succeed (programResult, execResult))) s1))"

definition pipeline ::
  "families \<Rightarrow> ('w, 'h, 'r) client
     \<Rightarrow> (('w, 'h) RedisTxShape \<Rightarrow> (('w, 'h) sys, 'a) effect)
     \<Rightarrow> (('w, 'h) sys, 'a \<times> 'r list) effect" where
  "pipeline K c program s =
     (case c_multi c s of
        (txClient, s1) \<Rightarrow>
          (case makeRedisTx K c (Batch txClient) of
             Inl d \<Rightarrow> (Die d, s1)
           | Inr txApi \<Rightarrow>
               andThen (program txApi) (\<lambda>programResult.
               andThen (tryPromise RedisError (tx_execAsPipeline c txClient)) (\<lambda>execResult.
               succeed (programResult, execResult))) s1))"

text \<open>
  The aggregate built by \<open>makeRedisCore\<close>: the Immediate tables of ten families spread
  into one object, and the JSON table under the key \<open>json\<close>. The keys \<open>json\<close>, \<open>multi\<close>
  and \<open>pipeline\<close> are written after the spreads, so no spread entry of those names
  survives; \<open>multi\<close> and \<open>pipeline\<close> themselves are \<open>multi K c\<close> and \<open>pipeline K c\<close>.
\<close>

record ('w, 'h, 'r) RedisCoreShape =
  commands :: "string \<rightharpoonup> ('w, 'h, 'r) async_fn"
  json :: "string \<rightharpoonup> ('w, 'h, 'r) async_fn"

definition makeRedisCore ::
  "families \<Rightarrow> ('w, 'h, 'r) client \<Rightarrow> 'h obj \<Rightarrow> cause + ('w, 'h, 'r) RedisCoreShape" where
  "makeRedisCore K env c =
     (case spread
        [makeRedisFamily (bitmapKeys K) env c,
         makeRedisFamily (genericKeys K) env c,
         makeRedisFamily (hashKeys K) env c,
         makeRedisHyperLogLog env c,
         makeRedisFamily (listKeys K) env c,
         makeRedisFamily (scriptingKeys K) env c,
         makeRedisFamily (setKeys K) env c,
         makeRedisFamily (sortedSetKeys K) env c,
         makeRedisFamily (stringKeys K) env c,
         makeRedisGeoSpatial env c] of
        Inl e \<Rightarrow> Inl e
      | Inr t \<Rightarrow>
          (case makeRedisJson (jsonKeys K) env c of
             Inl e \<Rightarrow> Inl e
           | Inr j \<Rightarrow>
               Inr \<lparr>commands = t |` (- {''json'', ''multi'', ''pipeline''}), json = j\<rparr>))"

text \<open>
  \<open>RedisCoreLive\<close>: the layer takes the client of the connection service, calls
  \<open>client.eval\<close> once without awaiting or yielding the promise it returns, and returns
  the aggregate.
\<close>

definition probeScript :: string where
  "probeScript = ''return redis.call('GET',KEYS[1])''"

definition RedisCoreLive ::
  "families \<Rightarrow> ('w, 'h, 'r) client \<Rightarrow> (('w, 'h) sys, ('w, 'h, 'r) RedisCoreShape) effect" where
  "RedisCoreLive K env s =
     (case invoke_async env Client ''eval'' [probeScript, ''key''] s of
        (probe, s1) \<Rightarrow>
          (case makeRedisCore K env Client of
             Inl d \<Rightarrow> (Die d, s1)
           | Inr core \<Rightarrow> (Success core, s1)))"

section \<open>Composition functions\<close>

text \<open>
  A queued callable returns nothing, so what a composition function does with the surface
  is a fixed sequence of queued calls that ends by returning a value, failing with a
  \<open>RedisError\<close>, or throwing. Calling a name that the surface does not have throws.
\<close>

datatype 'a program =
    Return 'a
  | FailWith redis_error
  | Throw cause
  | Queue string "arg list" "'a program"
  | QueueJson string "arg list" "'a program"

fun run :: "'a program \<Rightarrow> ('w, 'h) RedisTxShape \<Rightarrow> (('w, 'h) sys, 'a) effect" where
  "run (Return a) tx = succeed a"
| "run (FailWith e) tx = (\<lambda>s. (Failure e, s))"
| "run (Throw d) tx = (\<lambda>s. (Die d, s))"
| "run (Queue n args k) tx =
     (case tx_commands tx n of
        None \<Rightarrow> (\<lambda>s. (Die (''TypeError: tx.'' @ n @ '' is not a function''), s))
      | Some f \<Rightarrow> andThen (f args) (\<lambda>_. run k tx))"
| "run (QueueJson n args k) tx =
     (case tx_json tx n of
        None \<Rightarrow> (\<lambda>s. (Die (''TypeError: tx.json.'' @ n @ '' is not a function''), s))
      | Some f \<Rightarrow> andThen (f args) (\<lambda>_. run k tx))"

section \<open>A reference client\<close>

text \<open>
  Modelled from the spec: the underlying client collaborator, at its interface. A
  queuing handle accumulates commands in call order without running them; atomic
  execution returns the replies in order, or the abort sentinel when the store discards
  the transaction; pipelined execution returns the replies in order and has no abort
  sentinel; a closed connection rejects. The store and what a command does to it are
  parameters.
\<close>

type_synonym command = "bool \<times> string \<times> arg list"

record 'st rworld =
  store :: 'st
  queues :: "nat \<Rightarrow> command list"
  nextHandle :: nat
  connected :: bool
  watchBroken :: bool

fun run_batch :: "(command \<Rightarrow> 'st \<Rightarrow> 'r \<times> 'st) \<Rightarrow> command list \<Rightarrow> 'st \<Rightarrow> 'r list \<times> 'st" where
  "run_batch sem [] st = ([], st)"
| "run_batch sem (x # xs) st =
     (case sem x st of
        (r, st1) \<Rightarrow> (case run_batch sem xs st1 of (rs, st2) \<Rightarrow> (r # rs, st2)))"

fun isJson :: "'h obj \<Rightarrow> bool" where
  "isJson Client = False"
| "isJson (Batch h) = False"
| "isJson ClientJson = True"
| "isJson (BatchJson h) = True"

fun ref_enqueue :: "nat obj \<Rightarrow> string \<Rightarrow> arg list \<Rightarrow> 'st rworld \<Rightarrow> 'st rworld" where
  "ref_enqueue (Batch h) n args w = w\<lparr>queues := (queues w)(h := queues w h @ [(False, n, args)])\<rparr>"
| "ref_enqueue (BatchJson h) n args w = w\<lparr>queues := (queues w)(h := queues w h @ [(True, n, args)])\<rparr>"
| "ref_enqueue Client n args w = w"
| "ref_enqueue ClientJson n args w = w"

definition ref_send ::
  "(command \<Rightarrow> 'st \<Rightarrow> 'r \<times> 'st) \<Rightarrow> nat obj \<Rightarrow> string \<Rightarrow> arg list \<Rightarrow> 'st rworld
     \<Rightarrow> 'r settled \<times> 'st rworld" where
  "ref_send sem handle n args w =
     (if connected w
      then (case sem (isJson handle, n, args) (store w) of (r, st) \<Rightarrow> (Resolved r, w\<lparr>store := st\<rparr>))
      else (Rejected ''ClientClosedError'', w))"

definition ref_newBatch :: "'st rworld \<Rightarrow> nat \<times> 'st rworld" where
  "ref_newBatch w =
     (nextHandle w, w\<lparr>queues := (queues w)(nextHandle w := []), nextHandle := Suc (nextHandle w)\<rparr>)"

definition ref_exec ::
  "(command \<Rightarrow> 'st \<Rightarrow> 'r \<times> 'st) \<Rightarrow> nat \<Rightarrow> 'st rworld \<Rightarrow> 'r list option settled \<times> 'st rworld" where
  "ref_exec sem h w =
     (if \<not> connected w then (Rejected ''ClientClosedError'', w)
      else if watchBroken w then (Resolved None, w\<lparr>queues := (queues w)(h := [])\<rparr>)
      else (case run_batch sem (queues w h) (store w) of
              (rs, st) \<Rightarrow> (Resolved (Some rs), w\<lparr>store := st, queues := (queues w)(h := [])\<rparr>)))"

definition ref_execAsPipeline ::
  "(command \<Rightarrow> 'st \<Rightarrow> 'r \<times> 'st) \<Rightarrow> nat \<Rightarrow> 'st rworld \<Rightarrow> 'r list settled \<times> 'st rworld" where
  "ref_execAsPipeline sem h w =
     (if \<not> connected w then (Rejected ''ClientClosedError'', w)
      else (case run_batch sem (queues w h) (store w) of
              (rs, st) \<Rightarrow> (Resolved rs, w\<lparr>store := st, queues := (queues w)(h := [])\<rparr>)))"

definition ref_client ::
  "(command \<Rightarrow> 'st \<Rightarrow> 'r \<times> 'st) \<Rightarrow> string list \<Rightarrow> string list \<Rightarrow> ('st rworld, nat, 'r) client" where
  "ref_client sem methods jsonMethods =
     \<lparr>has = (\<lambda>handle n. if isJson handle then n \<in> set jsonMethods else n \<in> set methods),
      send = ref_send sem,
      enqueue = ref_enqueue,
      newBatch = ref_newBatch,
      execBatch = ref_exec sem,
      execBatchAsPipeline = ref_execAsPipeline sem\<rparr>"

text \<open>A small store for concrete runs: \<open>set\<close> and \<open>get\<close> on string keys.\<close>

definition kv :: "command \<Rightarrow> (string \<rightharpoonup> string) \<Rightarrow> string \<times> (string \<rightharpoonup> string)" where
  "kv x st =
     (case x of
        (j, n, args) \<Rightarrow>
          (if n = ''set'' \<and> length args = 2 then (''OK'', st(args ! 0 \<mapsto> args ! 1))
           else if n = ''get'' \<and> length args = 1
             then ((case st (args ! 0) of None \<Rightarrow> ''(nil)'' | Some v \<Rightarrow> v), st)
           else (''ERR unknown command'', st)))"

definition someKeys :: families where
  "someKeys =
     \<lparr>bitmapKeys = [''getBit''], genericKeys = [''del''], hashKeys = [''hGet''],
      listKeys = [''lPush''], scriptingKeys = [''eval''], setKeys = [''sAdd''],
      sortedSetKeys = [''zAdd''], stringKeys = [''get'', ''set''], jsonKeys = [''get'', ''set'']\<rparr>"

definition allMethods :: "string list" where
  "allMethods =
     [''getBit'', ''del'', ''hGet'', ''lPush'', ''eval'', ''sAdd'', ''zAdd'', ''get'', ''set'']
       @ redisHyperLogLogKeys @ redisGeoSpatialKeys"

definition kvClient :: "((string \<rightharpoonup> string) rworld, nat, string) client" where
  "kvClient = ref_client kv allMethods [''get'', ''set'']"

text \<open>A client whose handles have no command method at all.\<close>

definition bareClient :: "((string \<rightharpoonup> string) rworld, nat, string) client" where
  "bareClient = ref_client kv [] []"

text \<open>
  The client library the repository is built on (the \<open>redis\<close> package) does not resolve
  \<open>exec()\<close> with \<open>null\<close> when the store discards the transaction: it rejects with a
  \<open>WatchError\<close>. This is the reference client with that execution.
\<close>

definition redis_exec ::
  "(command \<Rightarrow> 'st \<Rightarrow> 'r \<times> 'st) \<Rightarrow> nat \<Rightarrow> 'st rworld \<Rightarrow> 'r list option settled \<times> 'st rworld" where
  "redis_exec sem h w =
     (if \<not> connected w then (Rejected ''ClientClosedError'', w)
      else if watchBroken w then (Rejected ''WatchError'', w\<lparr>queues := (queues w)(h := [])\<rparr>)
      else (case run_batch sem (queues w h) (store w) of
              (rs, st) \<Rightarrow> (Resolved (Some rs), w\<lparr>store := st, queues := (queues w)(h := [])\<rparr>)))"

definition redisClient :: "((string \<rightharpoonup> string) rworld, nat, string) client" where
  "redisClient = kvClient\<lparr>execBatch := redis_exec kv\<rparr>"

definition start :: "((string \<rightharpoonup> string) rworld, nat) sys" where
  "start =
     \<lparr>world = \<lparr>store = Map.empty, queues = (\<lambda>h. []), nextHandle = 0, connected = True,
               watchBroken = False\<rparr>,
      calls = []\<rparr>"


section \<open>Notions used in the statements\<close>

text \<open>The queued calls written in a composition function, in order.\<close>

fun queued :: "'a program \<Rightarrow> command list" where
  "queued (Return a) = []"
| "queued (FailWith e) = []"
| "queued (Throw d) = []"
| "queued (Queue n args k) = (False, n, args) # queued k"
| "queued (QueueJson n args k) = (True, n, args) # queued k"

text \<open>The queued calls a composition function makes on a surface: those before the first
  name the surface does not have.\<close>

fun issued :: "'a program \<Rightarrow> ('w, 'h) RedisTxShape \<Rightarrow> command list" where
  "issued (Return a) tx = []"
| "issued (FailWith e) tx = []"
| "issued (Throw d) tx = []"
| "issued (Queue n args k) tx =
     (case tx_commands tx n of None \<Rightarrow> [] | Some f \<Rightarrow> (False, n, args) # issued k tx)"
| "issued (QueueJson n args k) tx =
     (case tx_json tx n of None \<Rightarrow> [] | Some f \<Rightarrow> (True, n, args) # issued k tx)"

text \<open>The call on the queuing handle \<open>h\<close> that a queued command is.\<close>

fun asCall :: "'h \<Rightarrow> command \<Rightarrow> 'h call" where
  "asCall h (j, n, args) = Invoke (if j then BatchJson h else Batch h) n args"

text \<open>Every callable of the surface forwards to the queuing handle \<open>h\<close>.\<close>

definition boundTo :: "('w, 'h, 'r) client \<Rightarrow> 'h \<Rightarrow> ('w, 'h) RedisTxShape \<Rightarrow> bool" where
  "boundTo c h tx \<longleftrightarrow>
     (\<forall>n f. tx_commands tx n = Some f \<longrightarrow> f = QueueExec c (Batch h) n) \<and>
     (\<forall>n f. tx_json tx n = Some f \<longrightarrow> f = QueueExec c (BatchJson h) n)"

text \<open>The names of the ten families that \<open>makeRedisCore\<close> and \<open>makeRedisTx\<close> spread.\<close>

definition flatNames :: "families \<Rightarrow> string set" where
  "flatNames K =
     set (bitmapKeys K) \<union> set (genericKeys K) \<union> set (hashKeys K)
       \<union> set redisHyperLogLogKeys \<union> set (listKeys K) \<union> set (scriptingKeys K)
       \<union> set (setKeys K) \<union> set (sortedSetKeys K) \<union> set (stringKeys K)
       \<union> set redisGeoSpatialKeys"

text \<open>A call that is made on the queuing handle \<open>h\<close> and does not acquire a handle.\<close>

fun onHandle :: "'h \<Rightarrow> 'h call \<Rightarrow> bool" where
  "onHandle h (Invoke handle n args) = (handle = Batch h \<or> handle = BatchJson h)"
| "onHandle h (MultiCall h') = False"
| "onHandle h (Exec h') = (h' = h)"
| "onHandle h (ExecAsPipeline h') = (h' = h)"

fun succeeded :: "'a exit \<Rightarrow> bool" where
  "succeeded (Success a) = True"
| "succeeded (Failure e) = False"
| "succeeded (Die d) = False"

text \<open>
  The result type of \<open>pipeline\<close> is the Outcome Pair type of \<open>multi\<close> without \<open>null\<close> in
  the second slot; this is the inclusion.
\<close>

fun asOutcomePair :: "('a \<times> 'r list) exit \<Rightarrow> ('a \<times> 'r list option) exit" where
  "asOutcomePair (Success (a, rs)) = Success (a, Some rs)"
| "asOutcomePair (Failure e) = Failure e"
| "asOutcomePair (Die d) = Die d"

text \<open>The start state with the connection closed, and with a watched key changed.\<close>

definition offline :: "((string \<rightharpoonup> string) rworld, nat) sys" where
  "offline = start\<lparr>world := (world start)\<lparr>connected := False\<rparr>\<rparr>"

definition watched :: "((string \<rightharpoonup> string) rworld, nat) sys" where
  "watched = start\<lparr>world := (world start)\<lparr>watchBroken := True\<rparr>\<rparr>"

section \<open>Lemmas on effects and the orchestration\<close>

lemmas effect_defs = andThen_def tryPromise_def succeed_def

lemma multi_build_throws:
  "c_multi c s = (h, s1) \<Longrightarrow> makeRedisTx K c (Batch h) = Inl d
     \<Longrightarrow> multi K c program s = (Die d, s1)"
  by (simp add: multi_def)

lemma multi_program_fails:
  "c_multi c s = (h, s1) \<Longrightarrow> makeRedisTx K c (Batch h) = Inr tx
     \<Longrightarrow> program tx s1 = (Failure e, s2) \<Longrightarrow> multi K c program s = (Failure e, s2)"
  by (simp add: multi_def effect_defs)

lemma multi_program_dies:
  "c_multi c s = (h, s1) \<Longrightarrow> makeRedisTx K c (Batch h) = Inr tx
     \<Longrightarrow> program tx s1 = (Die d, s2) \<Longrightarrow> multi K c program s = (Die d, s2)"
  by (simp add: multi_def effect_defs)

lemma multi_exec_rejects:
  "c_multi c s = (h, s1) \<Longrightarrow> makeRedisTx K c (Batch h) = Inr tx
     \<Longrightarrow> program tx s1 = (Success a, s2) \<Longrightarrow> tx_exec c h s2 = (Rejected x, s3)
     \<Longrightarrow> multi K c program s = (Failure (RedisError x), s3)"
  by (simp add: multi_def effect_defs)

lemma multi_exec_resolves:
  "c_multi c s = (h, s1) \<Longrightarrow> makeRedisTx K c (Batch h) = Inr tx
     \<Longrightarrow> program tx s1 = (Success a, s2) \<Longrightarrow> tx_exec c h s2 = (Resolved r, s3)
     \<Longrightarrow> multi K c program s = (Success (a, r), s3)"
  by (simp add: multi_def effect_defs)

lemma multi_Success_only:
  assumes "multi K c program s = (Success (a, r), s')" and "c_multi c s = (h, s1)"
  shows "\<exists>tx s2. makeRedisTx K c (Batch h) = Inr tx \<and> program tx s1 = (Success a, s2)
           \<and> tx_exec c h s2 = (Resolved r, s')"
  using assms
  by (auto simp: multi_def effect_defs split: sum.splits prod.splits exit.splits settled.splits)

lemma pipeline_build_throws:
  "c_multi c s = (h, s1) \<Longrightarrow> makeRedisTx K c (Batch h) = Inl d
     \<Longrightarrow> pipeline K c program s = (Die d, s1)"
  by (simp add: pipeline_def)

lemma pipeline_program_fails:
  "c_multi c s = (h, s1) \<Longrightarrow> makeRedisTx K c (Batch h) = Inr tx
     \<Longrightarrow> program tx s1 = (Failure e, s2) \<Longrightarrow> pipeline K c program s = (Failure e, s2)"
  by (simp add: pipeline_def effect_defs)

lemma pipeline_program_dies:
  "c_multi c s = (h, s1) \<Longrightarrow> makeRedisTx K c (Batch h) = Inr tx
     \<Longrightarrow> program tx s1 = (Die d, s2) \<Longrightarrow> pipeline K c program s = (Die d, s2)"
  by (simp add: pipeline_def effect_defs)

lemma pipeline_exec_rejects:
  "c_multi c s = (h, s1) \<Longrightarrow> makeRedisTx K c (Batch h) = Inr tx
     \<Longrightarrow> program tx s1 = (Success a, s2) \<Longrightarrow> tx_execAsPipeline c h s2 = (Rejected x, s3)
     \<Longrightarrow> pipeline K c program s = (Failure (RedisError x), s3)"
  by (simp add: pipeline_def effect_defs)

lemma pipeline_exec_resolves:
  "c_multi c s = (h, s1) \<Longrightarrow> makeRedisTx K c (Batch h) = Inr tx
     \<Longrightarrow> program tx s1 = (Success a, s2) \<Longrightarrow> tx_execAsPipeline c h s2 = (Resolved r, s3)
     \<Longrightarrow> pipeline K c program s = (Success (a, r), s3)"
  by (simp add: pipeline_def effect_defs)

lemma pipeline_Success_only:
  assumes "pipeline K c program s = (Success (a, r), s')" and "c_multi c s = (h, s1)"
  shows "\<exists>tx s2. makeRedisTx K c (Batch h) = Inr tx \<and> program tx s1 = (Success a, s2)
           \<and> tx_execAsPipeline c h s2 = (Resolved r, s')"
  using assms
  by (auto simp: pipeline_def effect_defs split: sum.splits prod.splits exit.splits settled.splits)

section \<open>Lemmas on the factory and the surfaces\<close>

lemma makeCommandGroup_Inr:
  "makeCommandGroup c h names g = Inr t \<longleftrightarrow>
     (\<forall>n \<in> set names. has c h n) \<and> t = map_of (map (\<lambda>n. (n, g c h n)) names)"
  by (auto simp: makeCommandGroup_def filter_empty_conv split: list.splits)

lemma makeCommandGroup_Inl:
  "makeCommandGroup c h names g = Inl e \<Longrightarrow> \<exists>n \<in> set names. \<not> has c h n"
proof -
  assume "makeCommandGroup c h names g = Inl e"
  then obtain n ns where "filter (\<lambda>n. \<not> has c h n) names = n # ns"
    by (auto simp: makeCommandGroup_def split: list.splits)
  then have "n \<in> set (filter (\<lambda>n. \<not> has c h n) names)"
    by simp
  then show ?thesis
    by auto
qed

lemma map_of_tabulate:
  "map_of (map (\<lambda>n. (n, g n)) names) n = (if n \<in> set names then Some (g n) else None)"
  by (induction names) auto

lemma makeCommandGroup_entry:
  "makeCommandGroup c h names g = Inr t \<Longrightarrow> t n = (if n \<in> set names then Some (g c h n) else None)"
  by (simp add: makeCommandGroup_Inr map_of_tabulate)

lemma makeCommandGroup_dom:
  "makeCommandGroup c h names g = Inr t \<Longrightarrow> dom t = set names"
  by (auto simp: makeCommandGroup_entry dom_def)

lemma spread_entry:
  "spread gs = Inr t \<Longrightarrow> t n = Some f \<Longrightarrow> \<exists>u. Inr u \<in> set gs \<and> u n = Some f"
proof (induction gs arbitrary: t)
  case Nil
  then show ?case by auto
next
  case (Cons g gs)
  then show ?case
    by (auto split: sum.splits simp: map_add_Some_iff)
qed

lemma spread_dom:
  "spread gs = Inr t \<Longrightarrow> dom t = (\<Union>u \<in> {u. Inr u \<in> set gs}. dom u)"
proof (induction gs arbitrary: t)
  case Nil
  then show ?case by simp
next
  case (Cons g gs)
  from Cons.prems obtain u ts where g: "g = Inr u" and ts: "spread gs = Inr ts"
    and t: "t = u ++ ts"
    by (auto split: sum.splits)
  have "dom t = dom u \<union> dom ts"
    by (auto simp: t)
  also have "dom ts = (\<Union>u \<in> {u. Inr u \<in> set gs}. dom u)"
    by (rule Cons.IH[OF ts])
  finally show ?case
    by (auto simp: g)
qed

lemma spread_Inl:
  "spread gs = Inl e \<Longrightarrow> Inl e \<in> set gs"
  by (induction gs) (auto split: sum.splits)

lemma spread_Inr_ex:
  "(\<forall>g \<in> set gs. \<exists>u. g = Inr u) \<Longrightarrow> \<exists>t. spread gs = Inr t"
  by (induction gs) (auto split: sum.splits)

lemmas family_defs =
  makeRedisFamily_def makeRedisFamilyQueue_def makeRedisHyperLogLog_def
  makeRedisHyperLogLogQueue_def makeRedisGeoSpatial_def makeRedisGeoSpatialQueue_def
  makeRedisJson_def makeRedisJsonQueue_def

lemma makeRedisTx_boundTo:
  assumes "makeRedisTx K c (Batch h) = Inr tx"
  shows "boundTo c h tx"
proof -
  from assms obtain t j where
    t: "spread
        [makeRedisFamilyQueue (bitmapKeys K) c (Batch h),
         makeRedisFamilyQueue (genericKeys K) c (Batch h),
         makeRedisFamilyQueue (hashKeys K) c (Batch h),
         makeRedisHyperLogLogQueue c (Batch h),
         makeRedisFamilyQueue (listKeys K) c (Batch h),
         makeRedisFamilyQueue (scriptingKeys K) c (Batch h),
         makeRedisFamilyQueue (setKeys K) c (Batch h),
         makeRedisFamilyQueue (sortedSetKeys K) c (Batch h),
         makeRedisFamilyQueue (stringKeys K) c (Batch h),
         makeRedisGeoSpatialQueue c (Batch h)] = Inr t"
    and j: "makeRedisJsonQueue (jsonKeys K) c (Batch h) = Inr j"
    and tx: "tx = \<lparr>tx_commands = t |` (- {''json''}), tx_json = j\<rparr>"
    by (auto simp: makeRedisTx_def split: sum.splits)
  have "f = QueueExec c (Batch h) n" if "t n = Some f" for n f
  proof -
    from spread_entry[OF t that] obtain u names where
      "Inr u = makeCommandGroup c (Batch h) names QueueExec" and "u n = Some f"
      unfolding family_defs by auto
    then show ?thesis
      using makeCommandGroup_entry[of c "Batch h" names QueueExec u n]
      by (auto split: if_splits)
  qed
  moreover have "f = QueueExec c (BatchJson h) n" if "j n = Some f" for n f
    using j that by (auto simp: family_defs makeCommandGroup_entry split: if_splits)
  ultimately show ?thesis
    by (auto simp: boundTo_def tx restrict_map_def split: if_splits)
qed

lemma run_boundTo:
  assumes "boundTo c h tx"
  shows "calls (snd (run p tx s)) = calls s @ map (asCall h) (issued p tx)
       \<and> world (snd (run p tx s)) =
           fold (\<lambda>(j, n, args). enqueue c (if j then BatchJson h else Batch h) n args)
             (issued p tx) (world s)"
proof (induction p arbitrary: s)
  case (Queue n args k)
  show ?case
  proof (cases "tx_commands tx n")
    case None
    then show ?thesis by simp
  next
    case (Some f)
    with assms have f: "f = QueueExec c (Batch h) n"
      by (simp add: boundTo_def)
    show ?thesis
      using Queue[of "invoke_queue c (Batch h) n args s"] Some
      by (simp add: f andThen_def QueueExec_def invoke_queue_def)
  qed
next
  case (QueueJson n args k)
  show ?case
  proof (cases "tx_json tx n")
    case None
    then show ?thesis by simp
  next
    case (Some f)
    with assms have f: "f = QueueExec c (BatchJson h) n"
      by (simp add: boundTo_def)
    show ?thesis
      using QueueJson[of "invoke_queue c (BatchJson h) n args s"] Some
      by (simp add: f andThen_def QueueExec_def invoke_queue_def)
  qed
qed (simp_all add: succeed_def)

lemma run_Success_issued:
  "boundTo c h tx \<Longrightarrow> fst (run p tx s) = Success a \<Longrightarrow> issued p tx = queued p"
proof (induction p arbitrary: s)
  case (Queue n args k)
  then show ?case
    by (cases "tx_commands tx n")
      (auto simp: boundTo_def andThen_def QueueExec_def split: prod.splits exit.splits)
next
  case (QueueJson n args k)
  then show ?case
    by (cases "tx_json tx n")
      (auto simp: boundTo_def andThen_def QueueExec_def split: prod.splits exit.splits)
qed (simp_all add: succeed_def)

section \<open>Lemmas on the reference client\<close>

lemma ref_enqueue_flag:
  "ref_enqueue (if j then BatchJson h else Batch h) n args w
     = w\<lparr>queues := (queues w)(h := queues w h @ [(j, n, args)])\<rparr>"
  by (cases j) simp_all

lemma append_fold:
  "fold (\<lambda>x w. w\<lparr>queues := (queues w)(h := queues w h @ [x])\<rparr>) cmds w
     = w\<lparr>queues := (queues w)(h := queues w h @ cmds)\<rparr>"
  by (induction cmds arbitrary: w) simp_all

lemma ref_enqueue_fold:
  "fold (\<lambda>(j, n, args). ref_enqueue (if j then BatchJson h else Batch h) n args) cmds w
     = w\<lparr>queues := (queues w)(h := queues w h @ cmds)\<rparr>"
proof -
  have eq: "(\<lambda>(j, n, args). ref_enqueue (if j then BatchJson h else Batch h) n args)
          = (\<lambda>x w. w\<lparr>queues := (queues w)(h := queues w h @ [x])\<rparr>)"
    by (auto simp: fun_eq_iff ref_enqueue_flag)
  show ?thesis
    by (simp only: eq append_fold)
qed

lemma ref_run_world:
  assumes "boundTo (ref_client sem ms jms) h tx"
  shows "world (snd (run p tx s))
           = (world s)\<lparr>queues := (queues (world s))(h := queues (world s) h @ issued p tx)\<rparr>"
  using run_boundTo[OF assms, of p s]
  by (simp add: ref_client_def ref_enqueue_fold)

lemma ref_c_multi:
  "c_multi (ref_client sem ms jms) s =
     (nextHandle (world s),
      \<lparr>world = (world s)\<lparr>queues := (queues (world s))(nextHandle (world s) := []),
                          nextHandle := Suc (nextHandle (world s))\<rparr>,
       calls = calls s @ [MultiCall (nextHandle (world s))]\<rparr>)"
  by (simp add: c_multi_def ref_client_def ref_newBatch_def)

lemma run_batch_Cons:
  "run_batch sem (x # xs) st =
     (fst (sem x st) # fst (run_batch sem xs (snd (sem x st))),
      snd (run_batch sem xs (snd (sem x st))))"
  by (simp split: prod.splits)

lemma run_batch_length: "length (fst (run_batch sem xs st)) = length xs"
  by (induction xs arbitrary: st) (simp_all add: run_batch_Cons del: run_batch.simps(2))

lemma run_batch_nth:
  "n < length xs \<Longrightarrow>
     fst (run_batch sem xs st) ! n = fst (sem (xs ! n) (snd (run_batch sem (take n xs) st)))"
proof (induction xs arbitrary: n st)
  case Nil
  then show ?case by simp
next
  case (Cons x xs)
  show ?case
  proof (cases n)
    case 0
    then show ?thesis
      by (simp add: run_batch_Cons del: run_batch.simps(2))
  next
    case (Suc k)
    with Cons.prems have "k < length xs"
      by simp
    from Cons.IH[OF this] Suc show ?thesis
      by (simp add: run_batch_Cons del: run_batch.simps(2))
  qed
qed

lemma isl_False_Inr: "isl x = False \<Longrightarrow> x = Inr (projr x)"
  by (cases x) simp_all

lemma isl_True_Inl: "isl x = True \<Longrightarrow> x = Inl (projl x)"
  by (cases x) simp_all

lemma kv_surface: "isl (makeRedisTx someKeys kvClient (Batch h)) = False"
  by code_simp

lemma c_multi_calls: "c_multi c s = (h, s1) \<Longrightarrow> calls s1 = calls s @ [MultiCall h]"
  by (auto simp: c_multi_def split: prod.splits)

lemma c_multi_world: "c_multi c s = (h, s1) \<Longrightarrow> world s1 = snd (newBatch c (world s))"
  by (auto simp: c_multi_def split: prod.splits)

lemma fold_enqueue_preserves:
  assumes "\<And>handle n args w. obs (enqueue c handle n args w) = obs w"
  shows "obs (fold (\<lambda>(j, n, args). enqueue c (if j then BatchJson h else Batch h) n args) cmds w)
           = obs w"
  by (induction cmds arbitrary: w) (auto simp: assms)

lemma asCall_not_exec:
  "Exec h' \<notin> set (map (asCall h) cmds) \<and> ExecAsPipeline h' \<notin> set (map (asCall h) cmds)
   \<and> MultiCall h' \<notin> set (map (asCall h) cmds)"
  by (induction cmds) auto

lemma kv_newBatch_store: "store (snd (newBatch kvClient w)) = store w"
  by (simp add: kvClient_def ref_client_def ref_newBatch_def)

lemma kv_enqueue_store: "store (enqueue kvClient handle n args w) = store w"
  by (cases handle) (simp_all add: kvClient_def ref_client_def)

lemma ref_tx_exec:
  "connected (world s) \<Longrightarrow> \<not> watchBroken (world s) \<Longrightarrow>
     fst (tx_exec (ref_client sem ms jms) h s)
       = Resolved (Some (fst (run_batch sem (queues (world s) h) (store (world s)))))"
  by (simp add: tx_exec_def ref_client_def ref_exec_def split: prod.splits)

lemma ref_tx_execAsPipeline:
  "connected (world s) \<Longrightarrow>
     fst (tx_execAsPipeline (ref_client sem ms jms) h s)
       = Resolved (fst (run_batch sem (queues (world s) h) (store (world s))))"
  by (simp add: tx_execAsPipeline_def ref_client_def ref_execAsPipeline_def split: prod.splits)

section \<open>Lemmas on the calls of an orchestration\<close>

lemma multi_run_world_obs:
  fixes c :: "('w, 'h, 'r) client" and obs :: "'w \<Rightarrow> 'x"
  assumes enq: "\<And>handle n args w. obs (enqueue c handle n args w) = obs w"
    and ex: "\<And>h w. obs (snd (execBatch c h w)) = obs w"
  shows "obs (world (snd (multi K c (run p) s))) = obs (snd (newBatch c (world s)))"
proof -
  obtain h s1 where o: "c_multi c s = (h, s1)"
    by (cases "c_multi c s")
  note w1 = c_multi_world[OF o]
  show ?thesis
  proof (cases "makeRedisTx K c (Batch h)")
    case (Inl d)
    with o w1 show ?thesis
      by (simp add: multi_build_throws)
  next
    case (Inr tx)
    then have bound: "boundTo c h tx"
      by (rule makeRedisTx_boundTo)
    obtain x s2 where r: "run p tx s1 = (x, s2)"
      by (cases "run p tx s1")
    have w2: "obs (world s2) = obs (world s1)"
      using run_boundTo[OF bound, of p s1] r fold_enqueue_preserves[of obs c, OF enq] by simp
    show ?thesis
    proof (cases x)
      case (Success a)
      obtain y s3 where e: "tx_exec c h s2 = (y, s3)"
        by (cases "tx_exec c h s2")
      then have "world s3 = snd (execBatch c h (world s2))"
        by (auto simp: tx_exec_def split: prod.splits)
      then have w3: "obs (world s3) = obs (world s2)"
        by (simp add: ex)
      have "snd (multi K c (run p) s) = s3"
        using o Inr r e Success
        by (cases y) (simp_all add: multi_exec_resolves[where program = "run p"]
            multi_exec_rejects[where program = "run p"])
      with w1 w2 w3 show ?thesis
        by simp
    next
      case (Failure e)
      with o Inr r have "snd (multi K c (run p) s) = s2"
        by (simp add: multi_program_fails[where program = "run p"])
      with w1 w2 show ?thesis
        by simp
    next
      case (Die d)
      with o Inr r have "snd (multi K c (run p) s) = s2"
        by (simp add: multi_program_dies[where program = "run p"])
      with w1 w2 show ?thesis
        by simp
    qed
  qed
qed

section \<open>Lemmas on the tables\<close>

lemma spread_groups_entry:
  "spread (map (\<lambda>names. makeCommandGroup c h names g) nss) = Inr t \<Longrightarrow>
     t n = (if n \<in> \<Union> (set ` set nss) then Some (g c h n) else None)"
proof (induction nss arbitrary: t)
  case Nil
  then show ?case by auto
next
  case (Cons names nss)
  from Cons.prems obtain u ts where u: "makeCommandGroup c h names g = Inr u"
    and ts: "spread (map (\<lambda>names. makeCommandGroup c h names g) nss) = Inr ts"
    and t: "t = u ++ ts"
    by (auto split: sum.splits)
  show ?case
    by (simp add: t map_add_def Cons.IH[OF ts] makeCommandGroup_entry[OF u])
qed

lemma flatNames_Union:
  "flatNames K = \<Union> (set ` set [bitmapKeys K, genericKeys K, hashKeys K, redisHyperLogLogKeys,
      listKeys K, scriptingKeys K, setKeys K, sortedSetKeys K, stringKeys K, redisGeoSpatialKeys])"
  by (simp add: flatNames_def Un_assoc)

lemma makeRedisCore_entries:
  assumes "makeRedisCore K c handle = Inr core"
  shows "commands core n =
           (if n \<in> flatNames K - {''json'', ''multi'', ''pipeline''}
            then Some (AsyncExec c handle n) else None)"
    and "json core n = (if n \<in> set (jsonKeys K) then Some (AsyncExec c (jsonOf handle) n) else None)"
proof -
  let ?nss = "[bitmapKeys K, genericKeys K, hashKeys K, redisHyperLogLogKeys, listKeys K,
      scriptingKeys K, setKeys K, sortedSetKeys K, stringKeys K, redisGeoSpatialKeys]"
  from assms obtain t j where
    t: "spread (map (\<lambda>names. makeCommandGroup c handle names AsyncExec) ?nss) = Inr t"
    and j: "makeCommandGroup c (jsonOf handle) (jsonKeys K) AsyncExec = Inr j"
    and core: "core = \<lparr>commands = t |` (- {''json'', ''multi'', ''pipeline''}), json = j\<rparr>"
    by (auto simp: makeRedisCore_def family_defs split: sum.splits)
  have "t n = (if n \<in> flatNames K then Some (AsyncExec c handle n) else None)"
    using spread_groups_entry[OF t, of n] by (simp only: flatNames_Union)
  then show "commands core n =
           (if n \<in> flatNames K - {''json'', ''multi'', ''pipeline''}
            then Some (AsyncExec c handle n) else None)"
    by (simp add: core restrict_map_def)
  show "json core n = (if n \<in> set (jsonKeys K) then Some (AsyncExec c (jsonOf handle) n) else None)"
    by (simp add: core makeCommandGroup_entry[OF j])
qed

lemma tabulated_dom:
  assumes "\<And>n. m n = (if n \<in> A then Some (f n) else None)"
  shows "dom m = A \<and> (\<forall>n \<in> dom m. m n = Some (f n))"
  by (auto simp: assms dom_def)

lemma makeCommandGroup_table:
  "makeCommandGroup c handle names strategy = Inr u \<Longrightarrow>
     dom u = set names \<and> (\<forall>n \<in> dom u. u n = Some (strategy c handle n))"
  by (rule tabulated_dom) (simp add: makeCommandGroup_entry)

lemma kv_core: "isl (makeRedisCore someKeys kvClient Client) = False"
  by code_simp

lemma kv_hll: "isl (makeRedisHyperLogLog kvClient Client) = False"
  by code_simp

lemma kv_hll_queue: "isl (makeRedisHyperLogLogQueue kvClient (Batch 0)) = False"
  by code_simp

lemma kv_geo: "isl (makeRedisGeoSpatial kvClient Client) = False"
  by code_simp

lemma kv_geo_queue: "isl (makeRedisGeoSpatialQueue kvClient (Batch 0)) = False"
  by code_simp

lemma bare_has: "\<not> has bareClient Client ''pfAdd''"
  by (simp add: bareClient_def ref_client_def)

lemma kv_has_hll: "\<forall>n \<in> set redisHyperLogLogKeys. has kvClient Client n"
  by (simp add: kvClient_def ref_client_def allMethods_def redisHyperLogLogKeys_def)

lemma bare_surface: "isl (makeRedisTx someKeys bareClient (Batch h)) = True"
  by code_simp

lemma bare_surface_error:
  "projl (makeRedisTx someKeys bareClient (Batch h)) = ''TypeError: getBit is not a function''"
  by code_simp

section \<open>Lemmas on the scope of an orchestration\<close>

lemma makeRedisTx_entries:
  assumes "makeRedisTx K c handle = Inr tx"
  shows "tx_commands tx n =
           (if n \<in> flatNames K - {''json''} then Some (QueueExec c handle n) else None)"
    and "tx_json tx n =
           (if n \<in> set (jsonKeys K) then Some (QueueExec c (jsonOf handle) n) else None)"
proof -
  let ?nss = "[bitmapKeys K, genericKeys K, hashKeys K, redisHyperLogLogKeys, listKeys K,
      scriptingKeys K, setKeys K, sortedSetKeys K, stringKeys K, redisGeoSpatialKeys]"
  from assms obtain t j where
    t: "spread (map (\<lambda>names. makeCommandGroup c handle names QueueExec) ?nss) = Inr t"
    and j: "makeCommandGroup c (jsonOf handle) (jsonKeys K) QueueExec = Inr j"
    and tx: "tx = \<lparr>tx_commands = t |` (- {''json''}), tx_json = j\<rparr>"
    by (auto simp: makeRedisTx_def family_defs split: sum.splits)
  have "t n = (if n \<in> flatNames K then Some (QueueExec c handle n) else None)"
    using spread_groups_entry[OF t, of n] by (simp only: flatNames_Union)
  then show "tx_commands tx n =
           (if n \<in> flatNames K - {''json''} then Some (QueueExec c handle n) else None)"
    by (simp add: tx restrict_map_def)
  show "tx_json tx n =
           (if n \<in> set (jsonKeys K) then Some (QueueExec c (jsonOf handle) n) else None)"
    by (simp add: tx makeCommandGroup_entry[OF j])
qed

lemma multi_state:
  assumes "c_multi c s = (h, s1)" and "makeRedisTx K c (Batch h) = Inr tx"
    and "program tx s1 = (x, s2)"
  shows "snd (multi K c program s) = (if succeeded x then snd (tx_exec c h s2) else s2)"
proof (cases x)
  case (Success a)
  obtain y s3 where e: "tx_exec c h s2 = (y, s3)"
    by (cases "tx_exec c h s2")
  have "snd (multi K c program s) = s3"
    using assms e Success
    by (cases y) (simp_all add: multi_exec_resolves[where program = program]
        multi_exec_rejects[where program = program])
  with e Success show ?thesis
    by simp
next
  case (Failure e)
  with assms show ?thesis
    by (simp add: multi_program_fails[where program = program])
next
  case (Die d)
  with assms show ?thesis
    by (simp add: multi_program_dies[where program = program])
qed

lemma pipeline_state:
  assumes "c_multi c s = (h, s1)" and "makeRedisTx K c (Batch h) = Inr tx"
    and "program tx s1 = (x, s2)"
  shows "snd (pipeline K c program s)
           = (if succeeded x then snd (tx_execAsPipeline c h s2) else s2)"
proof (cases x)
  case (Success a)
  obtain y s3 where e: "tx_execAsPipeline c h s2 = (y, s3)"
    by (cases "tx_execAsPipeline c h s2")
  have "snd (pipeline K c program s) = s3"
    using assms e Success
    by (cases y) (simp_all add: pipeline_exec_resolves[where program = program]
        pipeline_exec_rejects[where program = program])
  with e Success show ?thesis
    by simp
next
  case (Failure e)
  with assms show ?thesis
    by (simp add: pipeline_program_fails[where program = program])
next
  case (Die d)
  with assms show ?thesis
    by (simp add: pipeline_program_dies[where program = program])
qed

lemma tx_exec_calls: "calls (snd (tx_exec c h s)) = calls s @ [Exec h]"
  by (simp add: tx_exec_def split: prod.splits)

lemma tx_execAsPipeline_calls:
  "calls (snd (tx_execAsPipeline c h s)) = calls s @ [ExecAsPipeline h]"
  by (simp add: tx_execAsPipeline_def split: prod.splits)

lemma tx_exec_world: "world (snd (tx_exec c h s)) = snd (execBatch c h (world s))"
  by (simp add: tx_exec_def split: prod.splits)

lemma tx_execAsPipeline_world:
  "world (snd (tx_execAsPipeline c h s)) = snd (execBatchAsPipeline c h (world s))"
  by (simp add: tx_execAsPipeline_def split: prod.splits)

lemma multi_run_calls:
  assumes "c_multi c s = (h, s1)" and "makeRedisTx K c (Batch h) = Inr tx"
  shows "calls (snd (multi K c (run p) s))
           = calls s @ MultiCall h # map (asCall h) (issued p tx)
               @ (if succeeded (fst (run p tx s1)) then [Exec h] else [])"
proof -
  have bound: "boundTo c h tx"
    using assms(2) by (rule makeRedisTx_boundTo)
  have r: "run p tx s1 = (fst (run p tx s1), snd (run p tx s1))"
    by simp
  have c2: "calls (snd (run p tx s1)) = calls s @ MultiCall h # map (asCall h) (issued p tx)"
    using run_boundTo[OF bound, of p s1] c_multi_calls[OF assms(1)] by simp
  show ?thesis
    by (simp add: multi_state[where program = "run p", OF assms r] tx_exec_calls c2)
qed

lemma pipeline_run_calls:
  assumes "c_multi c s = (h, s1)" and "makeRedisTx K c (Batch h) = Inr tx"
  shows "calls (snd (pipeline K c (run p) s))
           = calls s @ MultiCall h # map (asCall h) (issued p tx)
               @ (if succeeded (fst (run p tx s1)) then [ExecAsPipeline h] else [])"
proof -
  have bound: "boundTo c h tx"
    using assms(2) by (rule makeRedisTx_boundTo)
  have r: "run p tx s1 = (fst (run p tx s1), snd (run p tx s1))"
    by simp
  have c2: "calls (snd (run p tx s1)) = calls s @ MultiCall h # map (asCall h) (issued p tx)"
    using run_boundTo[OF bound, of p s1] c_multi_calls[OF assms(1)] by simp
  show ?thesis
    by (simp add: pipeline_state[where program = "run p", OF assms r] tx_execAsPipeline_calls c2)
qed

lemma pipeline_run_world_obs:
  fixes c :: "('w, 'h, 'r) client" and obs :: "'w \<Rightarrow> 'x"
  assumes enq: "\<And>handle n args w. obs (enqueue c handle n args w) = obs w"
    and ex: "\<And>h w. obs (snd (execBatchAsPipeline c h w)) = obs w"
  shows "obs (world (snd (pipeline K c (run p) s))) = obs (snd (newBatch c (world s)))"
proof -
  obtain h s1 where o: "c_multi c s = (h, s1)"
    by (cases "c_multi c s")
  note w1 = c_multi_world[OF o]
  show ?thesis
  proof (cases "makeRedisTx K c (Batch h)")
    case (Inl d)
    with o w1 show ?thesis
      by (simp add: pipeline_build_throws)
  next
    case (Inr tx)
    then have bound: "boundTo c h tx"
      by (rule makeRedisTx_boundTo)
    have r: "run p tx s1 = (fst (run p tx s1), snd (run p tx s1))"
      by simp
    have w2: "obs (world (snd (run p tx s1))) = obs (world s1)"
      using run_boundTo[OF bound, of p s1] fold_enqueue_preserves[of obs c, OF enq] by simp
    show ?thesis
      by (simp add: pipeline_state[where program = "run p", OF o Inr r]
          tx_execAsPipeline_world ex w2 w1)
  qed
qed

lemma asCall_onHandle: "list_all (onHandle h) (map (asCall h) cmds)"
  by (induction cmds) auto

lemma kv_handles:
  "(\<forall>w. fst (newBatch kvClient w) \<notin> {n. n < nextHandle w}
        \<and> {n. n < nextHandle (snd (newBatch kvClient w))}
            = insert (fst (newBatch kvClient w)) {n. n < nextHandle w})
   \<and> (\<forall>handle n args w.
         {k. k < nextHandle (enqueue kvClient handle n args w)} = {k. k < nextHandle w})
   \<and> (\<forall>g w. {k. k < nextHandle (snd (execBatch kvClient g w))} = {k. k < nextHandle w})
   \<and> (\<forall>g w. {k. k < nextHandle (snd (execBatchAsPipeline kvClient g w))} = {k. k < nextHandle w})"
proof (intro conjI allI)
  fix w :: "(string \<rightharpoonup> string) rworld"
  show "fst (newBatch kvClient w) \<notin> {n. n < nextHandle w}"
    by (simp add: kvClient_def ref_client_def ref_newBatch_def)
  show "{n. n < nextHandle (snd (newBatch kvClient w))}
            = insert (fst (newBatch kvClient w)) {n. n < nextHandle w}"
    by (auto simp: kvClient_def ref_client_def ref_newBatch_def)
next
  fix handle n args and w :: "(string \<rightharpoonup> string) rworld"
  show "{k. k < nextHandle (enqueue kvClient handle n args w)} = {k. k < nextHandle w}"
    by (cases handle) (simp_all add: kvClient_def ref_client_def)
next
  fix g and w :: "(string \<rightharpoonup> string) rworld"
  show "{k. k < nextHandle (snd (execBatch kvClient g w))} = {k. k < nextHandle w}"
    by (simp add: kvClient_def ref_client_def ref_exec_def split: prod.splits)
  show "{k. k < nextHandle (snd (execBatchAsPipeline kvClient g w))} = {k. k < nextHandle w}"
    by (simp add: kvClient_def ref_client_def ref_execAsPipeline_def split: prod.splits)
qed

section \<open>The claims\<close>

text \<open>
  C1. For \<open>multi\<close> and for \<open>pipeline\<close>, the orchestration ends with the Outcome Pair
  \<open>(a, r)\<close> exactly when the composition function, run on the surface over the freshly
  opened handle, produced \<open>a\<close> and the execution of the batch resolved with \<open>r\<close>: the
  first slot is the value of the composition function whatever the per-command results
  are. A composition function that queues nothing still produces its value, and
  \<open>pipeline\<close> on the function that queues one \<open>set\<close> and returns 42 gives 42 and one
  result.
\<close>

theorem outcome_pair_carries_program_result:
  assumes "c_multi c s = (h, s1)"
  shows "(multi K c program s = (Success (a, r), s') \<longleftrightarrow>
            (\<exists>tx s2. makeRedisTx K c (Batch h) = Inr tx \<and> program tx s1 = (Success a, s2)
               \<and> tx_exec c h s2 = (Resolved r, s')))
       \<and> (pipeline K c program s = (Success (a, rs), s'') \<longleftrightarrow>
            (\<exists>tx s2. makeRedisTx K c (Batch h) = Inr tx \<and> program tx s1 = (Success a, s2)
               \<and> tx_execAsPipeline c h s2 = (Resolved rs, s'')))
       \<and> (\<forall>tx. run (Return a) tx s1 = (Success a, s1))
       \<and> (\<exists>xs t. pipeline someKeys kvClient (run (Queue ''set'' [''a'', ''1''] (Return (42 :: int)))) start
                  = (Success (42, xs), t) \<and> length xs = 1)"
proof -
  have m: "multi K c program s = (Success (a, r), s') \<longleftrightarrow>
            (\<exists>tx s2. makeRedisTx K c (Batch h) = Inr tx \<and> program tx s1 = (Success a, s2)
               \<and> tx_exec c h s2 = (Resolved r, s'))"
  proof
    assume "multi K c program s = (Success (a, r), s')"
    then show "\<exists>tx s2. makeRedisTx K c (Batch h) = Inr tx \<and> program tx s1 = (Success a, s2)
               \<and> tx_exec c h s2 = (Resolved r, s')"
      using assms by (rule multi_Success_only)
  next
    assume "\<exists>tx s2. makeRedisTx K c (Batch h) = Inr tx \<and> program tx s1 = (Success a, s2)
               \<and> tx_exec c h s2 = (Resolved r, s')"
    then obtain tx s2 where "makeRedisTx K c (Batch h) = Inr tx"
      and "program tx s1 = (Success a, s2)" and "tx_exec c h s2 = (Resolved r, s')"
      by auto
    then show "multi K c program s = (Success (a, r), s')"
      by (rule multi_exec_resolves[OF assms])
  qed
  have p: "pipeline K c program s = (Success (a, rs), s'') \<longleftrightarrow>
            (\<exists>tx s2. makeRedisTx K c (Batch h) = Inr tx \<and> program tx s1 = (Success a, s2)
               \<and> tx_execAsPipeline c h s2 = (Resolved rs, s''))"
  proof
    assume "pipeline K c program s = (Success (a, rs), s'')"
    then show "\<exists>tx s2. makeRedisTx K c (Batch h) = Inr tx \<and> program tx s1 = (Success a, s2)
               \<and> tx_execAsPipeline c h s2 = (Resolved rs, s'')"
      using assms by (rule pipeline_Success_only)
  next
    assume "\<exists>tx s2. makeRedisTx K c (Batch h) = Inr tx \<and> program tx s1 = (Success a, s2)
               \<and> tx_execAsPipeline c h s2 = (Resolved rs, s'')"
    then obtain tx s2 where "makeRedisTx K c (Batch h) = Inr tx"
      and "program tx s1 = (Success a, s2)" and "tx_execAsPipeline c h s2 = (Resolved rs, s'')"
      by auto
    then show "pipeline K c program s = (Success (a, rs), s'')"
      by (rule pipeline_exec_resolves[OF assms])
  qed
  have z: "\<forall>tx. run (Return a) tx s1 = (Success a, s1)"
    by (simp add: succeed_def)
  have "fst (pipeline someKeys kvClient (run (Queue ''set'' [''a'', ''1''] (Return (42 :: int)))) start)
          = Success (42, [''OK''])"
    by code_simp
  then have e: "\<exists>xs t. pipeline someKeys kvClient (run (Queue ''set'' [''a'', ''1''] (Return (42 :: int)))) start
                  = (Success (42, xs), t) \<and> length xs = 1"
    by (cases "pipeline someKeys kvClient (run (Queue ''set'' [''a'', ''1''] (Return (42 :: int)))) start")
      simp
  from m p z e show ?thesis
    by (intro conjI)
qed

theorem outcome_pair_carries_program_result_witness:
  "fst (multi someKeys kvClient (run (Return (7 :: int))) start) = Success (7, Some [])
   \<and> (\<exists>tx s2. makeRedisTx someKeys kvClient (Batch (fst (c_multi kvClient start))) = Inr tx
        \<and> run (Return (7 :: int)) tx (snd (c_multi kvClient start)) = (Success 7, s2)
        \<and> tx_exec kvClient (fst (c_multi kvClient start)) s2
            = (Resolved (Some []), snd (multi someKeys kvClient (run (Return (7 :: int))) start)))"
proof -
  have f: "fst (multi someKeys kvClient (run (Return (7 :: int))) start) = Success (7, Some [])"
    by code_simp
  then have m: "multi someKeys kvClient (run (Return (7 :: int))) start
      = (Success (7, Some []), snd (multi someKeys kvClient (run (Return (7 :: int))) start))"
    by (simp add: prod_eq_iff)
  have o: "c_multi kvClient start = (fst (c_multi kvClient start), snd (c_multi kvClient start))"
    by simp
  from outcome_pair_carries_program_result[OF o, THEN conjunct1, THEN iffD1, OF m] f
  show ?thesis
    by (intro conjI)
qed



text \<open>
  C2. The type of \<open>multi\<close> and the README say what the claim says: when the transaction
  was aborted, the second slot of the Outcome Pair is \<open>null\<close>. The code has no case for a
  discard: it wraps every rejection of \<open>txClient.exec()\<close> into the unified error. With
  the client library, which rejects with a \<open>WatchError\<close> when the store discards the
  transaction, the orchestration on a changed watched key fails with a \<open>RedisError\<close> that
  wraps the \<open>WatchError\<close>, and is no success with the abort sentinel; the same
  composition function without the discard succeeds with its results.
\<close>

theorem discarded_transaction_fails_with_redis_error:
  "fst (multi someKeys redisClient (run (Queue ''set'' [''k'', ''v''] (Return (1 :: int)))) watched)
     = Failure (RedisError ''WatchError'')
   \<and> \<not> succeeded
         (fst (multi someKeys redisClient (run (Queue ''set'' [''k'', ''v''] (Return (1 :: int)))) watched))
   \<and> fst (multi someKeys redisClient (run (Queue ''set'' [''k'', ''v''] (Return (1 :: int)))) start)
     = Success (1, Some [''OK''])"
  by code_simp

text \<open>
  C3. For every input, the second slot of the result of \<open>pipeline\<close>, seen in the Outcome
  Pair type of \<open>multi\<close>, is not the abort sentinel: a success carries the sequence the
  pipelined execution resolved with, and a rejected execution makes the orchestration fail
  with the unified error wrapping the cause.
\<close>

theorem pipeline_never_aborted:
  "asOutcomePair (fst (pipeline K c program s)) \<noteq> Success (a, None)
   \<and> (c_multi c s = (h, s1) \<and> makeRedisTx K c (Batch h) = Inr tx
        \<and> program tx s1 = (Success a, s2) \<and> tx_execAsPipeline c h s2 = (Rejected x, s3)
      \<longrightarrow> pipeline K c program s = (Failure (RedisError x), s3))
   \<and> (c_multi c s = (h, s1) \<and> pipeline K c program s = (Success (a, rs), s')
      \<longrightarrow> (\<exists>tx s2. makeRedisTx K c (Batch h) = Inr tx \<and> program tx s1 = (Success a, s2)
             \<and> tx_execAsPipeline c h s2 = (Resolved rs, s')))"
proof -
  have "asOutcomePair y \<noteq> Success (a, None)" for y :: "('a \<times> 'b list) exit"
    by (cases y rule: asOutcomePair.cases) simp_all
  then show ?thesis
    using pipeline_exec_rejects[of c s h s1 K tx program a s2 x s3]
      pipeline_Success_only[of K c program s a rs s' h s1]
    by simp
qed

theorem pipeline_never_aborted_witness:
  "fst (pipeline someKeys kvClient (run (Queue ''set'' [''k'', ''v''] (Return (1 :: int)))) offline)
     = Failure (RedisError ''ClientClosedError'')"
proof -
  let ?p = "run (Queue ''set'' [''k'', ''v''] (Return (1 :: int)))"
  let ?h = "fst (c_multi kvClient offline)"
  let ?s1 = "snd (c_multi kvClient offline)"
  let ?tx = "projr (makeRedisTx someKeys kvClient (Batch ?h))"
  let ?s2 = "snd (?p ?tx ?s1)"
  let ?s3 = "snd (tx_execAsPipeline kvClient ?h ?s2)"
  have o: "c_multi kvClient offline = (?h, ?s1)"
    by simp
  have b: "makeRedisTx someKeys kvClient (Batch ?h) = Inr ?tx"
    by (rule isl_False_Inr[OF kv_surface])
  have "fst (?p ?tx ?s1) = Success 1"
    by code_simp
  then have r: "?p ?tx ?s1 = (Success 1, ?s2)"
    by (simp add: prod_eq_iff)
  have "fst (tx_execAsPipeline kvClient ?h ?s2) = Rejected ''ClientClosedError''"
    by code_simp
  then have e: "tx_execAsPipeline kvClient ?h ?s2 = (Rejected ''ClientClosedError'', ?s3)"
    by (simp add: prod_eq_iff)
  from pipeline_never_aborted[of someKeys kvClient ?p offline 1 ?h ?s1 ?tx ?s2
      "''ClientClosedError''" ?s3] o b r e
  show ?thesis
    by simp
qed

text \<open>
  C4, as stated: every failure between opening the scope and executing the batch makes
  the orchestration fail with the unified error. It does not hold: a composition function
  that throws ends the orchestration with a defect, which is not a \<open>RedisError\<close>.
\<close>

theorem thrown_program_is_a_defect_counterexample:
  "fst (multi someKeys kvClient (run (Throw ''boom'')) start)
     = (Die ''boom'' :: (int \<times> string list option) exit)
   \<and> fst (multi someKeys kvClient (run (Throw ''boom'')) start)
     \<noteq> (Failure (RedisError ''boom'') :: (int \<times> string list option) exit)"
  by code_simp

text \<open>
  C4, amended. An exception thrown while the queued surface is constructed, or by the
  composition function, ends \<open>multi\<close> and \<open>pipeline\<close> with that exception as a defect; a
  failure of the composition function in the error channel ends them with that same
  \<open>RedisError\<close>; a rejected execution of the batch ends them with a \<open>RedisError\<close> that
  wraps the cause. In none of these cases is an Outcome Pair produced.
\<close>

theorem orchestration_failures:
  assumes "c_multi c s = (h, s1)"
  shows "(makeRedisTx K c (Batch h) = Inl d
            \<longrightarrow> fst (multi K c program s) = Die d \<and> fst (pipeline K c program s) = Die d)
       \<and> (makeRedisTx K c (Batch h) = Inr tx \<and> fst (program tx s1) = Die d
            \<longrightarrow> fst (multi K c program s) = Die d \<and> fst (pipeline K c program s) = Die d)
       \<and> (makeRedisTx K c (Batch h) = Inr tx \<and> fst (program tx s1) = Failure e
            \<longrightarrow> fst (multi K c program s) = Failure e \<and> fst (pipeline K c program s) = Failure e)
       \<and> (makeRedisTx K c (Batch h) = Inr tx \<and> program tx s1 = (Success a, s2)
            \<and> fst (tx_exec c h s2) = Rejected x
            \<longrightarrow> fst (multi K c program s) = Failure (RedisError x))
       \<and> (makeRedisTx K c (Batch h) = Inr tx \<and> program tx s1 = (Success a, s2)
            \<and> fst (tx_execAsPipeline c h s2) = Rejected x
            \<longrightarrow> fst (pipeline K c program s) = Failure (RedisError x))"
proof (intro conjI impI)
  assume "makeRedisTx K c (Batch h) = Inl d"
  with assms show "fst (multi K c program s) = Die d" "fst (pipeline K c program s) = Die d"
    by (simp_all add: multi_build_throws pipeline_build_throws)
next
  assume "makeRedisTx K c (Batch h) = Inr tx \<and> fst (program tx s1) = Die d"
  then have "makeRedisTx K c (Batch h) = Inr tx" and "program tx s1 = (Die d, snd (program tx s1))"
    by (simp_all add: prod_eq_iff)
  with assms show "fst (multi K c program s) = Die d" "fst (pipeline K c program s) = Die d"
    by (simp_all add: multi_program_dies pipeline_program_dies)
next
  assume "makeRedisTx K c (Batch h) = Inr tx \<and> fst (program tx s1) = Failure e"
  then have "makeRedisTx K c (Batch h) = Inr tx"
    and "program tx s1 = (Failure e, snd (program tx s1))"
    by (simp_all add: prod_eq_iff)
  with assms show "fst (multi K c program s) = Failure e"
    "fst (pipeline K c program s) = Failure e"
    by (simp_all add: multi_program_fails pipeline_program_fails)
next
  assume "makeRedisTx K c (Batch h) = Inr tx \<and> program tx s1 = (Success a, s2)
            \<and> fst (tx_exec c h s2) = Rejected x"
  then have "makeRedisTx K c (Batch h) = Inr tx" and "program tx s1 = (Success a, s2)"
    and "tx_exec c h s2 = (Rejected x, snd (tx_exec c h s2))"
    by (simp_all add: prod_eq_iff)
  with assms show "fst (multi K c program s) = Failure (RedisError x)"
    by (simp add: multi_exec_rejects)
next
  assume "makeRedisTx K c (Batch h) = Inr tx \<and> program tx s1 = (Success a, s2)
            \<and> fst (tx_execAsPipeline c h s2) = Rejected x"
  then have "makeRedisTx K c (Batch h) = Inr tx" and "program tx s1 = (Success a, s2)"
    and "tx_execAsPipeline c h s2 = (Rejected x, snd (tx_execAsPipeline c h s2))"
    by (simp_all add: prod_eq_iff)
  with assms show "fst (pipeline K c program s) = Failure (RedisError x)"
    by (simp add: pipeline_exec_rejects)
qed

theorem orchestration_failures_witness:
  "fst (multi someKeys bareClient (run (Return (0 :: int))) start)
      = Die ''TypeError: getBit is not a function''
   \<and> fst (pipeline someKeys kvClient (run (Throw ''boom'')) start)
      = (Die ''boom'' :: (int \<times> string list) exit)
   \<and> fst (multi someKeys kvClient (run (FailWith (RedisError ''nope''))) start)
      = (Failure (RedisError ''nope'') :: (int \<times> string list option) exit)
   \<and> fst (multi someKeys kvClient (run (Queue ''set'' [''k'', ''v''] (Return (1 :: int)))) offline)
      = Failure (RedisError ''ClientClosedError'')
   \<and> fst (pipeline someKeys kvClient (run (Queue ''set'' [''k'', ''v''] (Return (1 :: int)))) offline)
      = Failure (RedisError ''ClientClosedError'')"
proof -
  let ?q = "run (Queue ''set'' [''k'', ''v''] (Return (1 :: int)))"
  let ?h = "fst (c_multi kvClient offline)"
  let ?s1 = "snd (c_multi kvClient offline)"
  let ?tx = "projr (makeRedisTx someKeys kvClient (Batch ?h))"
  let ?s2 = "snd (?q ?tx ?s1)"
  let ?g = "fst (c_multi kvClient start)"
  let ?ty = "projr (makeRedisTx someKeys kvClient (Batch ?g))"
  have o: "c_multi kvClient offline = (?h, ?s1)"
    by simp
  have o0: "c_multi kvClient start = (?g, snd (c_multi kvClient start))"
    by simp
  have ob: "c_multi bareClient start = (fst (c_multi bareClient start), snd (c_multi bareClient start))"
    by simp
  have b: "makeRedisTx someKeys kvClient (Batch ?h) = Inr ?tx"
    by (rule isl_False_Inr[OF kv_surface])
  have b0: "makeRedisTx someKeys kvClient (Batch ?g) = Inr ?ty"
    by (rule isl_False_Inr[OF kv_surface])
  have bb: "makeRedisTx someKeys bareClient (Batch (fst (c_multi bareClient start)))
              = Inl ''TypeError: getBit is not a function''"
    using isl_True_Inl[OF bare_surface] by (simp add: bare_surface_error)
  have "fst (?q ?tx ?s1) = Success 1"
    by code_simp
  then have r: "?q ?tx ?s1 = (Success 1, ?s2)"
    by (simp add: prod_eq_iff)
  have em: "fst (tx_exec kvClient ?h ?s2) = Rejected ''ClientClosedError''"
    by code_simp
  have ep: "fst (tx_execAsPipeline kvClient ?h ?s2) = Rejected ''ClientClosedError''"
    by code_simp
  have t: "fst (run (Throw ''boom'' :: int program) ?ty (snd (c_multi kvClient start))) = Die ''boom''"
    by simp
  have f: "fst (run (FailWith (RedisError ''nope'') :: int program) ?ty (snd (c_multi kvClient start)))
             = Failure (RedisError ''nope'')"
    by simp
  note w1 = orchestration_failures[where program = "run (Return (0 :: int))", OF ob,
      THEN conjunct1, rule_format, OF bb, THEN conjunct1]
  note w2 = orchestration_failures[where program = "run (Throw ''boom'' :: int program)", OF o0,
      THEN conjunct2, THEN conjunct1, rule_format, OF conjI[OF b0 t], THEN conjunct2]
  note w3 = orchestration_failures[where program = "run (FailWith (RedisError ''nope'') :: int program)",
      OF o0, THEN conjunct2, THEN conjunct2, THEN conjunct1, rule_format, OF conjI[OF b0 f],
      THEN conjunct1]
  note w4 = orchestration_failures[where program = "?q", OF o, THEN conjunct2, THEN conjunct2,
      THEN conjunct2, THEN conjunct1, rule_format, OF conjI[OF b conjI[OF r em]]]
  note w5 = orchestration_failures[where program = "?q", OF o, THEN conjunct2, THEN conjunct2,
      THEN conjunct2, THEN conjunct2, rule_format, OF conjI[OF b conjI[OF r ep]]]
  from w1 w2 w3 w4 w5 show ?thesis
    by (intro conjI)
qed

text \<open>
  C6, as stated: constructing the live layer needs a connected client and fails at wiring
  time when the connection is broken. It does not hold: with the connection closed the
  probe rejects, and the construction still succeeds.
\<close>

theorem rejected_probe_does_not_fail_construction_counterexample:
  "fst (invoke_async kvClient Client ''eval'' [probeScript, ''key''] offline)
     = Rejected ''ClientClosedError''
   \<and> succeeded (fst (RedisCoreLive someKeys kvClient offline))"
  by code_simp

text \<open>
  C6, amended. Constructing the live layer calls \<open>client.eval\<close> exactly once, before the
  tables are built, and neither awaits nor inspects the promise it returns: the result of
  the construction is the aggregate, or the defect thrown by the construction of a table,
  whether the probe resolves or rejects.
\<close>

theorem core_live_probe_is_not_awaited:
  "calls (snd (RedisCoreLive K c s)) = calls s @ [Invoke Client ''eval'' [probeScript, ''key'']]
   \<and> world (snd (RedisCoreLive K c s)) = snd (send c Client ''eval'' [probeScript, ''key''] (world s))
   \<and> fst (RedisCoreLive K c s)
       = (case makeRedisCore K c Client of Inl d \<Rightarrow> Die d | Inr core \<Rightarrow> Success core)"
  by (simp add: RedisCoreLive_def invoke_async_def split: prod.splits sum.splits)

text \<open>
  C10. When the composition function fails, in the error channel or by throwing, \<open>multi\<close>
  and \<open>pipeline\<close> end with that failure alone, in the state the composition function
  left: no call follows it. For a composition function given as a sequence of queued
  calls, the calls made on the client are the acquisition of the handle and the queued
  calls, with no \<open>exec\<close> or \<open>execAsPipeline\<close>, and whatever of the client's world neither
  acquiring a handle nor queuing alters, such as the store, is as it was before.
\<close>

theorem failed_program_skips_execution:
  fixes c :: "('w, 'h, 'r) client"
  assumes "c_multi c s = (h, s1)" and "makeRedisTx K c (Batch h) = Inr tx"
    and "program tx s1 = (x, s2)" and "\<not> succeeded x"
  shows "snd (multi K c program s) = s2 \<and> snd (pipeline K c program s) = s2
       \<and> (\<forall>e. x = Failure e \<longrightarrow>
             fst (multi K c program s) = Failure e \<and> fst (pipeline K c program s) = Failure e)
       \<and> (\<forall>d. x = Die d \<longrightarrow>
             fst (multi K c program s) = Die d \<and> fst (pipeline K c program s) = Die d)
       \<and> (\<forall>p. program = run p \<longrightarrow>
             calls s2 = calls s @ MultiCall h # map (asCall h) (issued p tx)
             \<and> Exec h \<notin> set (map (asCall h) (issued p tx))
             \<and> ExecAsPipeline h \<notin> set (map (asCall h) (issued p tx)))
       \<and> (\<forall>p (obs :: 'w \<Rightarrow> 'x). program = run p
             \<and> (\<forall>w. obs (snd (newBatch c w)) = obs w)
             \<and> (\<forall>handle n args w. obs (enqueue c handle n args w) = obs w)
             \<longrightarrow> obs (world s2) = obs (world s))"
proof -
  have bound: "boundTo c h tx"
    using assms(2) by (rule makeRedisTx_boundTo)
  have exits: "snd (multi K c program s) = s2 \<and> snd (pipeline K c program s) = s2
       \<and> (\<forall>e. x = Failure e \<longrightarrow>
             fst (multi K c program s) = Failure e \<and> fst (pipeline K c program s) = Failure e)
       \<and> (\<forall>d. x = Die d \<longrightarrow>
             fst (multi K c program s) = Die d \<and> fst (pipeline K c program s) = Die d)"
  proof (cases x)
    case (Success a)
    with assms(4) show ?thesis by simp
  next
    case (Failure e)
    with assms show ?thesis
      by (simp add: multi_program_fails pipeline_program_fails)
  next
    case (Die d)
    with assms show ?thesis
      by (simp add: multi_program_dies pipeline_program_dies)
  qed
  have trace: "calls s2 = calls s @ MultiCall h # map (asCall h) (issued p tx)
             \<and> Exec h \<notin> set (map (asCall h) (issued p tx))
             \<and> ExecAsPipeline h \<notin> set (map (asCall h) (issued p tx))" if "program = run p" for p
    using run_boundTo[OF bound, of p s1] assms(3) that c_multi_calls[OF assms(1)]
      asCall_not_exec[of h h "issued p tx"]
    by simp
  have quiet: "obs (world s2) = obs (world s)"
    if "program = run p" and "\<forall>w. obs (snd (newBatch c w)) = obs w"
      and "\<forall>handle n args w. obs (enqueue c handle n args w) = obs w" for p and obs :: "'w \<Rightarrow> 'x"
  proof -
    have "world s2 = fold (\<lambda>(j, n, args). enqueue c (if j then BatchJson h else Batch h) n args)
             (issued p tx) (world s1)"
      using run_boundTo[OF bound, of p s1] assms(3) that(1) by simp
    then have "obs (world s2) = obs (world s1)"
      using fold_enqueue_preserves[of obs c] that(3) by simp
    with c_multi_world[OF assms(1)] that(2) show ?thesis
      by simp
  qed
  from exits trace quiet show ?thesis
    by blast
qed

theorem failed_program_skips_execution_witness:
  "fst (multi someKeys kvClient
          (run (Queue ''set'' [''k'', ''v''] (FailWith (RedisError ''nope'') :: int program))) start)
     = Failure (RedisError ''nope'')
   \<and> calls (snd (multi someKeys kvClient
          (run (Queue ''set'' [''k'', ''v''] (FailWith (RedisError ''nope'') :: int program))) start))
     = [MultiCall 0, Invoke (Batch 0) ''set'' [''k'', ''v'']]
   \<and> store (world (snd (multi someKeys kvClient
          (run (Queue ''set'' [''k'', ''v''] (FailWith (RedisError ''nope'') :: int program))) start)))
     = store (world start)"
proof -
  let ?p = "Queue ''set'' [''k'', ''v''] (FailWith (RedisError ''nope'') :: int program)"
  let ?h = "fst (c_multi kvClient start)"
  let ?s1 = "snd (c_multi kvClient start)"
  let ?tx = "projr (makeRedisTx someKeys kvClient (Batch ?h))"
  let ?s2 = "snd (run ?p ?tx ?s1)"
  have o: "c_multi kvClient start = (?h, ?s1)"
    by simp
  have b: "makeRedisTx someKeys kvClient (Batch ?h) = Inr ?tx"
    by (rule isl_False_Inr[OF kv_surface])
  have "fst (run ?p ?tx ?s1) = Failure (RedisError ''nope'')"
    by code_simp
  then have r: "run ?p ?tx ?s1 = (Failure (RedisError ''nope''), ?s2)"
    by (simp add: prod_eq_iff)
  have n: "\<not> succeeded (Failure (RedisError ''nope'') :: int exit)"
    by simp
  note w = failed_program_skips_execution[where program = "run ?p" and 'x = "string \<rightharpoonup> string",
      OF o b r n]
  have e: "fst (multi someKeys kvClient (run ?p) start) = Failure (RedisError ''nope'')"
    using w by simp
  have st: "snd (multi someKeys kvClient (run ?p) start) = ?s2"
    using w by simp
  have "store (world ?s2) = store (world start)"
    using w kv_newBatch_store kv_enqueue_store by blast
  with st have q: "store (world (snd (multi someKeys kvClient (run ?p) start))) = store (world start)"
    by simp
  have "calls ?s2 = [MultiCall 0, Invoke (Batch 0) ''set'' [''k'', ''v'']]"
    by code_simp
  with st have t: "calls (snd (multi someKeys kvClient (run ?p) start))
      = [MultiCall 0, Invoke (Batch 0) ''set'' [''k'', ''v'']]"
    by simp
  from e t q show ?thesis
    by (intro conjI)
qed

text \<open>
  C5. On the reference client, for a composition function that runs to its return on the
  surface of an open scope: the store is the same after the composition function as
  before the orchestration, the commands wait in the queue of the handle in the order of
  the calls, and no call other than the queued ones has been made on the client. The
  execution then gives, in \<open>multi\<close> (when the transaction is not discarded) and in
  \<open>pipeline\<close>, one result per queued call, the n-th being the reply to the n-th queued
  command run after the n commands before it.
\<close>

theorem queued_commands_run_at_execute_in_order:
  fixes sem :: "command \<Rightarrow> 'st \<Rightarrow> 'r \<times> 'st"
  assumes "c = ref_client sem ms jms" and "c_multi c s = (h, s1)"
    and "makeRedisTx K c (Batch h) = Inr tx" and "run p tx s1 = (Success a, s2)"
  shows "store (world s2) = store (world s)
       \<and> queues (world s2) h = queued p
       \<and> calls s2 = calls s @ MultiCall h # map (asCall h) (queued p)
       \<and> (connected (world s) \<and> \<not> watchBroken (world s) \<longrightarrow>
            fst (multi K c (run p) s)
              = Success (a, Some (fst (run_batch sem (queued p) (store (world s))))))
       \<and> (connected (world s) \<longrightarrow>
            fst (pipeline K c (run p) s)
              = Success (a, fst (run_batch sem (queued p) (store (world s)))))
       \<and> length (fst (run_batch sem (queued p) (store (world s)))) = length (queued p)
       \<and> (\<forall>n < length (queued p).
            fst (run_batch sem (queued p) (store (world s))) ! n
              = fst (sem (queued p ! n) (snd (run_batch sem (take n (queued p)) (store (world s))))))"
proof -
  have bound: "boundTo c h tx"
    using assms(3) by (rule makeRedisTx_boundTo)
  have iss: "issued p tx = queued p"
    using run_Success_issued[OF bound, of p s1 a] assms(4) by simp
  have h: "h = nextHandle (world s)"
    and w1: "world s1 = (world s)\<lparr>queues := (queues (world s))(h := []),
                                    nextHandle := Suc (nextHandle (world s))\<rparr>"
    and c1: "calls s1 = calls s @ [MultiCall h]"
    using assms(2) by (auto simp: assms(1) ref_c_multi)
  have w2: "world s2 = (world s1)\<lparr>queues := (queues (world s1))(h := queues (world s1) h @ queued p)\<rparr>"
    using ref_run_world[of sem ms jms h tx p s1] bound assms(4) by (simp add: assms(1) iss)
  have c2: "calls s2 = calls s @ MultiCall h # map (asCall h) (queued p)"
    using run_boundTo[OF bound, of p s1] assms(4) by (simp add: iss c1)
  have st: "store (world s2) = store (world s)" and q: "queues (world s2) h = queued p"
    and con: "connected (world s2) = connected (world s)"
    and wb: "watchBroken (world s2) = watchBroken (world s)"
    by (simp_all add: w2 w1)
  have m: "fst (multi K c (run p) s)
              = Success (a, Some (fst (run_batch sem (queued p) (store (world s)))))"
    if "connected (world s) \<and> \<not> watchBroken (world s)"
  proof -
    have "fst (tx_exec c h s2) = Resolved (Some (fst (run_batch sem (queued p) (store (world s)))))"
      using ref_tx_exec[of s2 sem ms jms h] that by (simp add: assms(1) con wb st q)
    then have "tx_exec c h s2
        = (Resolved (Some (fst (run_batch sem (queued p) (store (world s))))), snd (tx_exec c h s2))"
      by (simp add: prod_eq_iff)
    from multi_exec_resolves[where program = "run p", OF assms(2) assms(3) assms(4) this] show ?thesis
      by simp
  qed
  have pl: "fst (pipeline K c (run p) s)
              = Success (a, fst (run_batch sem (queued p) (store (world s))))"
    if "connected (world s)"
  proof -
    have "fst (tx_execAsPipeline c h s2) = Resolved (fst (run_batch sem (queued p) (store (world s))))"
      using ref_tx_execAsPipeline[of s2 sem ms jms h] that by (simp add: assms(1) con st q)
    then have "tx_execAsPipeline c h s2
        = (Resolved (fst (run_batch sem (queued p) (store (world s)))), snd (tx_execAsPipeline c h s2))"
      by (simp add: prod_eq_iff)
    from pipeline_exec_resolves[where program = "run p", OF assms(2) assms(3) assms(4) this] show ?thesis
      by simp
  qed
  from st q c2 m pl show ?thesis
    by (simp add: run_batch_length run_batch_nth)
qed

theorem queued_commands_run_at_execute_in_order_witness:
  "fst (multi someKeys kvClient
          (run (Queue ''set'' [''k'', ''v''] (Queue ''get'' [''k''] (Return (42 :: int))))) start)
     = Success (42, Some [''OK'', ''v''])
   \<and> fst (pipeline someKeys kvClient
          (run (Queue ''set'' [''k'', ''v''] (Queue ''get'' [''k''] (Return (42 :: int))))) start)
     = Success (42, [''OK'', ''v''])"
proof -
  let ?p = "Queue ''set'' [''k'', ''v''] (Queue ''get'' [''k''] (Return (42 :: int)))"
  let ?h = "fst (c_multi kvClient start)"
  let ?s1 = "snd (c_multi kvClient start)"
  let ?tx = "projr (makeRedisTx someKeys kvClient (Batch ?h))"
  let ?s2 = "snd (run ?p ?tx ?s1)"
  have o: "c_multi kvClient start = (?h, ?s1)"
    by simp
  have b: "makeRedisTx someKeys kvClient (Batch ?h) = Inr ?tx"
    by (rule isl_False_Inr[OF kv_surface])
  have "fst (run ?p ?tx ?s1) = Success 42"
    by code_simp
  then have r: "run ?p ?tx ?s1 = (Success 42, ?s2)"
    by (simp add: prod_eq_iff)
  have live: "connected (world start) \<and> \<not> watchBroken (world start)"
    by (simp add: start_def)
  have rs: "fst (run_batch kv (queued ?p) (store (world start))) = [''OK'', ''v'']"
    by (simp add: start_def kv_def)
  from queued_commands_run_at_execute_in_order[OF kvClient_def o b r] live rs show ?thesis
    by simp
qed



text \<open>
  C8. A run of \<open>multi\<close> or \<open>pipeline\<close> asks the client for one queuing handle, as its
  first call. When the construction of the surface throws, the run ends there. Otherwise
  the surface has an entry for every queued command name, each forwarding to that handle;
  the composition function is run on that surface in the state the acquisition left, and
  the batch is executed on that handle in the state the composition function left, and
  only when it succeeded. For a composition function given as a sequence of queued calls,
  the calls of the run are the acquisition, the queued calls on that handle and the
  execution on that handle, and no other. For every client that never hands out a handle
  it has handed out before, the handle of a run is none of the earlier ones, and the run
  that comes next gets a handle different from it and from the earlier ones.
\<close>

theorem orchestration_acquires_its_own_handle:
  fixes c :: "('w, 'h, 'r) client"
  assumes "c_multi c s = (h, s1)"
  shows "h = fst (newBatch c (world s)) \<and> calls s1 = calls s @ [MultiCall h]
       \<and> (\<forall>d. makeRedisTx K c (Batch h) = Inl d \<longrightarrow>
             multi K c program s = (Die d, s1) \<and> pipeline K c program s = (Die d, s1))
       \<and> (\<forall>tx. makeRedisTx K c (Batch h) = Inr tx \<longrightarrow>
             (\<forall>n. tx_commands tx n =
                (if n \<in> flatNames K - {''json''} then Some (QueueExec c (Batch h) n) else None))
           \<and> (\<forall>n. tx_json tx n =
                (if n \<in> set (jsonKeys K) then Some (QueueExec c (BatchJson h) n) else None))
           \<and> (\<forall>x s2. program tx s1 = (x, s2) \<longrightarrow>
                 snd (multi K c program s) = (if succeeded x then snd (tx_exec c h s2) else s2)
               \<and> snd (pipeline K c program s)
                   = (if succeeded x then snd (tx_execAsPipeline c h s2) else s2))
           \<and> (\<forall>p. calls (snd (multi K c (run p) s))
                   = calls s @ MultiCall h # map (asCall h) (issued p tx)
                       @ (if succeeded (fst (run p tx s1)) then [Exec h] else [])
               \<and> calls (snd (pipeline K c (run p) s))
                   = calls s @ MultiCall h # map (asCall h) (issued p tx)
                       @ (if succeeded (fst (run p tx s1)) then [ExecAsPipeline h] else [])
               \<and> list_all (onHandle h) (map (asCall h) (issued p tx) @ [Exec h, ExecAsPipeline h])))
       \<and> (\<forall>live :: 'w \<Rightarrow> 'h set.
             (\<forall>w. fst (newBatch c w) \<notin> live w
                  \<and> live (snd (newBatch c w)) = insert (fst (newBatch c w)) (live w))
           \<and> (\<forall>handle n args w. live (enqueue c handle n args w) = live w)
           \<and> (\<forall>g w. live (snd (execBatch c g w)) = live w)
           \<and> (\<forall>g w. live (snd (execBatchAsPipeline c g w)) = live w)
           \<longrightarrow> h \<notin> live (world s)
             \<and> (\<forall>p. fst (c_multi c (snd (multi K c (run p) s))) \<notin> insert h (live (world s))
                  \<and> fst (c_multi c (snd (pipeline K c (run p) s))) \<notin> insert h (live (world s))))"
proof -
  have a: "h = fst (newBatch c (world s))"
    using assms by (auto simp: c_multi_def split: prod.splits)
  have b: "calls s1 = calls s @ [MultiCall h]"
    using assms by (rule c_multi_calls)
  have d: "\<forall>d. makeRedisTx K c (Batch h) = Inl d \<longrightarrow>
             multi K c program s = (Die d, s1) \<and> pipeline K c program s = (Die d, s1)"
    using assms by (simp add: multi_build_throws pipeline_build_throws)
  have e: "(\<forall>n. tx_commands tx n =
                (if n \<in> flatNames K - {''json''} then Some (QueueExec c (Batch h) n) else None))
           \<and> (\<forall>n. tx_json tx n =
                (if n \<in> set (jsonKeys K) then Some (QueueExec c (BatchJson h) n) else None))
           \<and> (\<forall>x s2. program tx s1 = (x, s2) \<longrightarrow>
                 snd (multi K c program s) = (if succeeded x then snd (tx_exec c h s2) else s2)
               \<and> snd (pipeline K c program s)
                   = (if succeeded x then snd (tx_execAsPipeline c h s2) else s2))
           \<and> (\<forall>p. calls (snd (multi K c (run p) s))
                   = calls s @ MultiCall h # map (asCall h) (issued p tx)
                       @ (if succeeded (fst (run p tx s1)) then [Exec h] else [])
               \<and> calls (snd (pipeline K c (run p) s))
                   = calls s @ MultiCall h # map (asCall h) (issued p tx)
                       @ (if succeeded (fst (run p tx s1)) then [ExecAsPipeline h] else [])
               \<and> list_all (onHandle h) (map (asCall h) (issued p tx) @ [Exec h, ExecAsPipeline h]))"
    if tx: "makeRedisTx K c (Batch h) = Inr tx" for tx
  proof (intro conjI allI impI)
    fix n
    show "tx_commands tx n =
            (if n \<in> flatNames K - {''json''} then Some (QueueExec c (Batch h) n) else None)"
      by (rule makeRedisTx_entries(1)[OF tx])
    show "tx_json tx n =
            (if n \<in> set (jsonKeys K) then Some (QueueExec c (BatchJson h) n) else None)"
      using makeRedisTx_entries(2)[OF tx, of n] by simp
  next
    fix x s2
    assume r: "program tx s1 = (x, s2)"
    show "snd (multi K c program s) = (if succeeded x then snd (tx_exec c h s2) else s2)"
      by (rule multi_state[where program = program, OF assms tx r])
    show "snd (pipeline K c program s)
            = (if succeeded x then snd (tx_execAsPipeline c h s2) else s2)"
      by (rule pipeline_state[where program = program, OF assms tx r])
  next
    fix p
    show "calls (snd (multi K c (run p) s))
            = calls s @ MultiCall h # map (asCall h) (issued p tx)
                @ (if succeeded (fst (run p tx s1)) then [Exec h] else [])"
      by (rule multi_run_calls[OF assms tx])
    show "calls (snd (pipeline K c (run p) s))
            = calls s @ MultiCall h # map (asCall h) (issued p tx)
                @ (if succeeded (fst (run p tx s1)) then [ExecAsPipeline h] else [])"
      by (rule pipeline_run_calls[OF assms tx])
    show "list_all (onHandle h) (map (asCall h) (issued p tx) @ [Exec h, ExecAsPipeline h])"
      using asCall_onHandle[of h "issued p tx"] by simp
  qed
  have f: "h \<notin> live (world s)
             \<and> (\<forall>p. fst (c_multi c (snd (multi K c (run p) s))) \<notin> insert h (live (world s))
                  \<and> fst (c_multi c (snd (pipeline K c (run p) s))) \<notin> insert h (live (world s)))"
    if l: "(\<forall>w. fst (newBatch c w) \<notin> live w
                  \<and> live (snd (newBatch c w)) = insert (fst (newBatch c w)) (live w))
           \<and> (\<forall>handle n args w. live (enqueue c handle n args w) = live w)
           \<and> (\<forall>g w. live (snd (execBatch c g w)) = live w)
           \<and> (\<forall>g w. live (snd (execBatchAsPipeline c g w)) = live w)"
    for live :: "'w \<Rightarrow> 'h set"
  proof (intro conjI allI)
    from l a show "h \<notin> live (world s)"
      by simp
  next
    fix p
    have next_handle: "fst (c_multi c t) = fst (newBatch c (world t))" for t
      by (simp add: c_multi_def split: prod.splits)
    have after: "live (snd (newBatch c (world s))) = insert h (live (world s))"
      using l a by simp
    have "live (world (snd (multi K c (run p) s))) = live (snd (newBatch c (world s)))"
      using l by (intro multi_run_world_obs) simp_all
    with after have m: "live (world (snd (multi K c (run p) s))) = insert h (live (world s))"
      by simp
    have "live (world (snd (pipeline K c (run p) s))) = live (snd (newBatch c (world s)))"
      using l by (intro pipeline_run_world_obs) simp_all
    with after have q: "live (world (snd (pipeline K c (run p) s))) = insert h (live (world s))"
      by simp
    from l have fresh: "fst (newBatch c w) \<notin> live w" for w
      by simp
    show "fst (c_multi c (snd (multi K c (run p) s))) \<notin> insert h (live (world s))"
      using fresh[of "world (snd (multi K c (run p) s))"] by (simp only: next_handle m) simp
    show "fst (c_multi c (snd (pipeline K c (run p) s))) \<notin> insert h (live (world s))"
      using fresh[of "world (snd (pipeline K c (run p) s))"] by (simp only: next_handle q) simp
  qed
  show ?thesis
  proof (intro conjI)
    show "h = fst (newBatch c (world s))"
      by (rule a)
    show "calls s1 = calls s @ [MultiCall h]"
      by (rule b)
    show "\<forall>d. makeRedisTx K c (Batch h) = Inl d \<longrightarrow>
             multi K c program s = (Die d, s1) \<and> pipeline K c program s = (Die d, s1)"
      by (rule d)
  next
    show "\<forall>tx. makeRedisTx K c (Batch h) = Inr tx \<longrightarrow>
             (\<forall>n. tx_commands tx n =
                (if n \<in> flatNames K - {''json''} then Some (QueueExec c (Batch h) n) else None))
           \<and> (\<forall>n. tx_json tx n =
                (if n \<in> set (jsonKeys K) then Some (QueueExec c (BatchJson h) n) else None))
           \<and> (\<forall>x s2. program tx s1 = (x, s2) \<longrightarrow>
                 snd (multi K c program s) = (if succeeded x then snd (tx_exec c h s2) else s2)
               \<and> snd (pipeline K c program s)
                   = (if succeeded x then snd (tx_execAsPipeline c h s2) else s2))
           \<and> (\<forall>p. calls (snd (multi K c (run p) s))
                   = calls s @ MultiCall h # map (asCall h) (issued p tx)
                       @ (if succeeded (fst (run p tx s1)) then [Exec h] else [])
               \<and> calls (snd (pipeline K c (run p) s))
                   = calls s @ MultiCall h # map (asCall h) (issued p tx)
                       @ (if succeeded (fst (run p tx s1)) then [ExecAsPipeline h] else [])
               \<and> list_all (onHandle h) (map (asCall h) (issued p tx) @ [Exec h, ExecAsPipeline h]))"
    proof (rule allI, rule impI)
      fix tx
      assume "makeRedisTx K c (Batch h) = Inr tx"
      then show "(\<forall>n. tx_commands tx n =
                (if n \<in> flatNames K - {''json''} then Some (QueueExec c (Batch h) n) else None))
           \<and> (\<forall>n. tx_json tx n =
                (if n \<in> set (jsonKeys K) then Some (QueueExec c (BatchJson h) n) else None))
           \<and> (\<forall>x s2. program tx s1 = (x, s2) \<longrightarrow>
                 snd (multi K c program s) = (if succeeded x then snd (tx_exec c h s2) else s2)
               \<and> snd (pipeline K c program s)
                   = (if succeeded x then snd (tx_execAsPipeline c h s2) else s2))
           \<and> (\<forall>p. calls (snd (multi K c (run p) s))
                   = calls s @ MultiCall h # map (asCall h) (issued p tx)
                       @ (if succeeded (fst (run p tx s1)) then [Exec h] else [])
               \<and> calls (snd (pipeline K c (run p) s))
                   = calls s @ MultiCall h # map (asCall h) (issued p tx)
                       @ (if succeeded (fst (run p tx s1)) then [ExecAsPipeline h] else [])
               \<and> list_all (onHandle h) (map (asCall h) (issued p tx) @ [Exec h, ExecAsPipeline h]))"
        by (rule e)
    qed
  next
    show "\<forall>live :: 'w \<Rightarrow> 'h set.
             (\<forall>w. fst (newBatch c w) \<notin> live w
                  \<and> live (snd (newBatch c w)) = insert (fst (newBatch c w)) (live w))
           \<and> (\<forall>handle n args w. live (enqueue c handle n args w) = live w)
           \<and> (\<forall>g w. live (snd (execBatch c g w)) = live w)
           \<and> (\<forall>g w. live (snd (execBatchAsPipeline c g w)) = live w)
           \<longrightarrow> h \<notin> live (world s)
             \<and> (\<forall>p. fst (c_multi c (snd (multi K c (run p) s))) \<notin> insert h (live (world s))
                  \<and> fst (c_multi c (snd (pipeline K c (run p) s))) \<notin> insert h (live (world s)))"
    proof (rule allI, rule impI)
      fix live :: "'w \<Rightarrow> 'h set"
      assume "(\<forall>w. fst (newBatch c w) \<notin> live w
                  \<and> live (snd (newBatch c w)) = insert (fst (newBatch c w)) (live w))
           \<and> (\<forall>handle n args w. live (enqueue c handle n args w) = live w)
           \<and> (\<forall>g w. live (snd (execBatch c g w)) = live w)
           \<and> (\<forall>g w. live (snd (execBatchAsPipeline c g w)) = live w)"
      then show "h \<notin> live (world s)
             \<and> (\<forall>p. fst (c_multi c (snd (multi K c (run p) s))) \<notin> insert h (live (world s))
                  \<and> fst (c_multi c (snd (pipeline K c (run p) s))) \<notin> insert h (live (world s)))"
        by (rule f)
    qed
  qed
qed

theorem orchestration_acquires_its_own_handle_witness:
  "tx_commands (projr (makeRedisTx someKeys kvClient (Batch (fst (c_multi kvClient start))))) ''set''
     = Some (QueueExec kvClient (Batch (fst (c_multi kvClient start))) ''set'')
   \<and> calls (snd (multi someKeys kvClient (run (Queue ''set'' [''k'', ''v''] (Return (1 :: int)))) start))
     = calls start @ MultiCall (fst (c_multi kvClient start))
         # map (asCall (fst (c_multi kvClient start)))
             (issued (Queue ''set'' [''k'', ''v''] (Return (1 :: int)))
                (projr (makeRedisTx someKeys kvClient (Batch (fst (c_multi kvClient start))))))
         @ [Exec (fst (c_multi kvClient start))]
   \<and> calls (snd (multi someKeys kvClient (run (Queue ''set'' [''k'', ''v''] (Return (1 :: int)))) start))
     = [MultiCall 0, Invoke (Batch 0) ''set'' [''k'', ''v''], Exec 0]
   \<and> fst (c_multi kvClient
            (snd (multi someKeys kvClient (run (Queue ''set'' [''k'', ''v''] (Return (1 :: int)))) start)))
       \<noteq> fst (c_multi kvClient start)"
proof -
  let ?p = "Queue ''set'' [''k'', ''v''] (Return (1 :: int))"
  let ?h = "fst (c_multi kvClient start)"
  let ?s1 = "snd (c_multi kvClient start)"
  let ?tx = "projr (makeRedisTx someKeys kvClient (Batch ?h))"
  have o: "c_multi kvClient start = (?h, ?s1)"
    by simp
  have b: "makeRedisTx someKeys kvClient (Batch ?h) = Inr ?tx"
    by (rule isl_False_Inr[OF kv_surface])
  note w = orchestration_acquires_its_own_handle[where K = someKeys and program = "run ?p", OF o]
  note tab = w[THEN conjunct2, THEN conjunct2, THEN conjunct2, THEN conjunct1, THEN spec,
      THEN mp, OF b]
  have "''set'' \<in> flatNames someKeys - {''json''}"
    by (simp add: flatNames_def someKeys_def)
  with tab[THEN conjunct1, THEN spec, of "''set''"]
  have t: "tx_commands ?tx ''set'' = Some (QueueExec kvClient (Batch ?h) ''set'')"
    by simp
  have ok: "succeeded (fst (run ?p ?tx ?s1))"
    by code_simp
  from tab[THEN conjunct2, THEN conjunct2, THEN conjunct2, THEN spec, of ?p, THEN conjunct1] ok
  have l: "calls (snd (multi someKeys kvClient (run ?p) start))
     = calls start @ MultiCall ?h # map (asCall ?h) (issued ?p ?tx) @ [Exec ?h]"
    by simp
  have v: "calls (snd (multi someKeys kvClient (run ?p) start))
     = [MultiCall 0, Invoke (Batch 0) ''set'' [''k'', ''v''], Exec 0]"
    by code_simp
  note fr = w[THEN conjunct2, THEN conjunct2, THEN conjunct2, THEN conjunct2,
      THEN spec, of "\<lambda>w. {n. n < nextHandle w}", THEN mp, OF kv_handles, THEN conjunct2,
      THEN spec, of ?p, THEN conjunct1]
  then have f: "fst (c_multi kvClient (snd (multi someKeys kvClient (run ?p) start))) \<noteq> ?h"
    by simp
  from t l v f show ?thesis
    by (intro conjI)
qed

text \<open>
  C7. The factory, for every name list and strategy: when some name is not a callable
  member of the handle, the construction throws and no table is produced; when every name
  is, the table has exactly the listed names and each entry is the strategy's callable
  for its name, so no entry is a no-op. The same holds of the HyperLogLog constructors,
  which pass their name list to the factory. The factory is a function of the handle, the
  names and the strategy alone: it takes no state and returns none.
\<close>

theorem factory_fails_fast_on_missing_member:
  "((\<exists>n \<in> set names. \<not> has c handle n) \<longrightarrow>
      (\<exists>e. makeCommandGroup c handle names strategy = Inl e))
   \<and> ((\<forall>n \<in> set names. has c handle n) \<longrightarrow>
      (\<exists>t. makeCommandGroup c handle names strategy = Inr t \<and> dom t = set names
         \<and> (\<forall>n \<in> dom t. t n = Some (strategy c handle n))))
   \<and> ((\<exists>n \<in> set redisHyperLogLogKeys. \<not> has c handle n) \<longrightarrow>
      (\<exists>e. makeRedisHyperLogLog c handle = Inl e)
      \<and> (\<exists>e. makeRedisHyperLogLogQueue c handle = Inl e))
   \<and> ((\<forall>n \<in> set redisHyperLogLogKeys. has c handle n) \<longrightarrow>
      (\<exists>t. makeRedisHyperLogLog c handle = Inr t \<and> dom t = set redisHyperLogLogKeys
         \<and> (\<forall>n \<in> dom t. t n = Some (AsyncExec c handle n))))"
proof -
  have bad: "\<exists>e. makeCommandGroup c handle ns g = Inl e" if "\<exists>n \<in> set ns. \<not> has c handle n"
    for ns and g :: "('a, 'b, 'c) client \<Rightarrow> 'b obj \<Rightarrow> string \<Rightarrow> 'g"
  proof (cases "makeCommandGroup c handle ns g")
    case (Inl e)
    then show ?thesis by simp
  next
    case (Inr t)
    with that show ?thesis
      by (simp add: makeCommandGroup_Inr)
  qed
  have good: "\<exists>t. makeCommandGroup c handle ns g = Inr t \<and> dom t = set ns
         \<and> (\<forall>n \<in> dom t. t n = Some (g c handle n))" if "\<forall>n \<in> set ns. has c handle n"
    for ns and g :: "('a, 'b, 'c) client \<Rightarrow> 'b obj \<Rightarrow> string \<Rightarrow> 'g"
  proof -
    let ?t = "map_of (map (\<lambda>n. (n, g c handle n)) ns)"
    from that have m: "makeCommandGroup c handle ns g = Inr ?t"
      by (simp add: makeCommandGroup_Inr)
    from makeCommandGroup_table[OF m] m show ?thesis
      by (intro exI[of _ ?t] conjI) simp_all
  qed
  have c1: "(\<exists>n \<in> set names. \<not> has c handle n) \<longrightarrow>
      (\<exists>e. makeCommandGroup c handle names strategy = Inl e)"
    by (rule impI) (rule bad)
  have c2: "(\<forall>n \<in> set names. has c handle n) \<longrightarrow>
      (\<exists>t. makeCommandGroup c handle names strategy = Inr t \<and> dom t = set names
         \<and> (\<forall>n \<in> dom t. t n = Some (strategy c handle n)))"
    by (rule impI) (rule good)
  have c3: "(\<exists>n \<in> set redisHyperLogLogKeys. \<not> has c handle n) \<longrightarrow>
      (\<exists>e. makeRedisHyperLogLog c handle = Inl e)
      \<and> (\<exists>e. makeRedisHyperLogLogQueue c handle = Inl e)"
    unfolding makeRedisHyperLogLog_def makeRedisHyperLogLogQueue_def
    by (intro impI conjI) (rule bad, assumption)+
  have c4: "(\<forall>n \<in> set redisHyperLogLogKeys. has c handle n) \<longrightarrow>
      (\<exists>t. makeRedisHyperLogLog c handle = Inr t \<and> dom t = set redisHyperLogLogKeys
         \<and> (\<forall>n \<in> dom t. t n = Some (AsyncExec c handle n)))"
    unfolding makeRedisHyperLogLog_def by (rule impI) (rule good)
  from c1 c2 c3 c4 show ?thesis
    by (intro conjI)
qed

theorem factory_fails_fast_on_missing_member_witness:
  "(\<exists>e. makeRedisHyperLogLog bareClient Client = Inl e)
   \<and> (\<exists>t. makeRedisHyperLogLog kvClient Client = Inr t \<and> dom t = set redisHyperLogLogKeys
         \<and> (\<forall>n \<in> dom t. t n = Some (AsyncExec kvClient Client n)))"
proof -
  have "\<exists>n \<in> set redisHyperLogLogKeys. \<not> has bareClient Client n"
    using bare_has by (simp add: redisHyperLogLogKeys_def)
  note a = factory_fails_fast_on_missing_member[of "[]" bareClient Client AsyncExec,
      THEN conjunct2, THEN conjunct2, THEN conjunct1, THEN mp, OF this, THEN conjunct1]
  note b = factory_fails_fast_on_missing_member[of "[]" kvClient Client AsyncExec,
      THEN conjunct2, THEN conjunct2, THEN conjunct2, THEN mp, OF kv_has_hll]
  from a b show ?thesis
    by (intro conjI)
qed

text \<open>
  C9. The HyperLogLog and the geospatial family each compile one name list through the
  factory into an Immediate and a Queued table with the same names (\<open>pfAdd\<close>, \<open>pfCount\<close>,
  \<open>pfMerge\<close>; the ten geospatial names), each entry being the strategy's callable for
  its name. The aggregate of \<open>makeRedisCore\<close> has, flat, the names of the ten spread
  families other than the keys \<open>json\<close>, \<open>multi\<close> and \<open>pipeline\<close>, which the object
  literal writes after the spreads, and has the JSON table, with the JSON names, under
  \<open>json\<close>. When no family lists one of those three keys, the flat names are all the names
  of the ten families.
\<close>

theorem families_compiled_by_one_factory:
  "(makeRedisHyperLogLog c handle = Inr t \<longrightarrow>
      dom t = {''pfAdd'', ''pfCount'', ''pfMerge''}
      \<and> (\<forall>n \<in> dom t. t n = Some (AsyncExec c handle n)))
   \<and> (makeRedisHyperLogLogQueue c handle = Inr q \<longrightarrow>
      dom q = {''pfAdd'', ''pfCount'', ''pfMerge''}
      \<and> (\<forall>n \<in> dom q. q n = Some (QueueExec c handle n)))
   \<and> (makeRedisGeoSpatial c handle = Inr g \<longrightarrow>
      dom g = set redisGeoSpatialKeys \<and> (\<forall>n \<in> dom g. g n = Some (AsyncExec c handle n)))
   \<and> (makeRedisGeoSpatialQueue c handle = Inr gq \<longrightarrow>
      dom gq = set redisGeoSpatialKeys \<and> (\<forall>n \<in> dom gq. gq n = Some (QueueExec c handle n)))
   \<and> card (set redisGeoSpatialKeys) = 10
   \<and> (makeRedisCore K c Client = Inr core \<longrightarrow>
      dom (commands core) = flatNames K - {''json'', ''multi'', ''pipeline''}
      \<and> (\<forall>n \<in> dom (commands core). commands core n = Some (AsyncExec c Client n))
      \<and> dom (json core) = set (jsonKeys K)
      \<and> (\<forall>n \<in> dom (json core). json core n = Some (AsyncExec c ClientJson n)))
   \<and> (makeRedisCore K c Client = Inr core
        \<and> flatNames K \<inter> {''json'', ''multi'', ''pipeline''} = {}
      \<longrightarrow> dom (commands core) = flatNames K)"
proof -
  have hll: "{''pfAdd'', ''pfCount'', ''pfMerge''} = set redisHyperLogLogKeys"
    by (simp add: redisHyperLogLogKeys_def)
  have c1: "makeRedisHyperLogLog c handle = Inr t \<longrightarrow>
      dom t = {''pfAdd'', ''pfCount'', ''pfMerge''}
      \<and> (\<forall>n \<in> dom t. t n = Some (AsyncExec c handle n))"
    unfolding hll makeRedisHyperLogLog_def by (rule impI) (rule makeCommandGroup_table)
  have c2: "makeRedisHyperLogLogQueue c handle = Inr q \<longrightarrow>
      dom q = {''pfAdd'', ''pfCount'', ''pfMerge''}
      \<and> (\<forall>n \<in> dom q. q n = Some (QueueExec c handle n))"
    unfolding hll makeRedisHyperLogLogQueue_def by (rule impI) (rule makeCommandGroup_table)
  have c3: "makeRedisGeoSpatial c handle = Inr g \<longrightarrow>
      dom g = set redisGeoSpatialKeys \<and> (\<forall>n \<in> dom g. g n = Some (AsyncExec c handle n))"
    unfolding makeRedisGeoSpatial_def by (rule impI) (rule makeCommandGroup_table)
  have c4: "makeRedisGeoSpatialQueue c handle = Inr gq \<longrightarrow>
      dom gq = set redisGeoSpatialKeys \<and> (\<forall>n \<in> dom gq. gq n = Some (QueueExec c handle n))"
    unfolding makeRedisGeoSpatialQueue_def by (rule impI) (rule makeCommandGroup_table)
  have c5: "card (set redisGeoSpatialKeys) = 10"
    by (simp add: redisGeoSpatialKeys_def)
  have c6: "makeRedisCore K c Client = Inr core \<longrightarrow>
      dom (commands core) = flatNames K - {''json'', ''multi'', ''pipeline''}
      \<and> (\<forall>n \<in> dom (commands core). commands core n = Some (AsyncExec c Client n))
      \<and> dom (json core) = set (jsonKeys K)
      \<and> (\<forall>n \<in> dom (json core). json core n = Some (AsyncExec c ClientJson n))"
  proof
    assume m: "makeRedisCore K c Client = Inr core"
    have a: "dom (commands core) = flatNames K - {''json'', ''multi'', ''pipeline''}
      \<and> (\<forall>n \<in> dom (commands core). commands core n = Some (AsyncExec c Client n))"
      by (rule tabulated_dom) (rule makeRedisCore_entries(1)[OF m])
    have b: "dom (json core) = set (jsonKeys K)
      \<and> (\<forall>n \<in> dom (json core). json core n = Some (AsyncExec c ClientJson n))"
      by (rule tabulated_dom) (simp add: makeRedisCore_entries(2)[OF m])
    from a b show "dom (commands core) = flatNames K - {''json'', ''multi'', ''pipeline''}
      \<and> (\<forall>n \<in> dom (commands core). commands core n = Some (AsyncExec c Client n))
      \<and> dom (json core) = set (jsonKeys K)
      \<and> (\<forall>n \<in> dom (json core). json core n = Some (AsyncExec c ClientJson n))"
      by simp
  qed
  have c7: "makeRedisCore K c Client = Inr core
        \<and> flatNames K \<inter> {''json'', ''multi'', ''pipeline''} = {}
      \<longrightarrow> dom (commands core) = flatNames K"
  proof
    assume m: "makeRedisCore K c Client = Inr core
        \<and> flatNames K \<inter> {''json'', ''multi'', ''pipeline''} = {}"
    then have "flatNames K - {''json'', ''multi'', ''pipeline''} = flatNames K"
      by (simp only: Diff_triv)
    with c6 m show "dom (commands core) = flatNames K"
      by simp
  qed
  from c1 c2 c3 c4 c5 c6 c7 show ?thesis
    by (intro conjI)
qed

theorem families_compiled_by_one_factory_witness:
  "dom (projr (makeRedisHyperLogLog kvClient Client)) = {''pfAdd'', ''pfCount'', ''pfMerge''}
   \<and> dom (projr (makeRedisHyperLogLogQueue kvClient (Batch 0))) = {''pfAdd'', ''pfCount'', ''pfMerge''}
   \<and> dom (projr (makeRedisGeoSpatial kvClient Client)) = set redisGeoSpatialKeys
   \<and> dom (projr (makeRedisGeoSpatialQueue kvClient (Batch 0))) = set redisGeoSpatialKeys
   \<and> dom (commands (projr (makeRedisCore someKeys kvClient Client)))
       = flatNames someKeys - {''json'', ''multi'', ''pipeline''}
   \<and> dom (json (projr (makeRedisCore someKeys kvClient Client))) = {''get'', ''set''}
   \<and> dom (commands (projr (makeRedisCore someKeys kvClient Client))) = flatNames someKeys"
proof -
  note w = families_compiled_by_one_factory[of kvClient Client
      "projr (makeRedisHyperLogLog kvClient Client)" _
      "projr (makeRedisGeoSpatial kvClient Client)" _
      someKeys "projr (makeRedisCore someKeys kvClient Client)"]
  note v = families_compiled_by_one_factory[of kvClient "Batch 0" _
      "projr (makeRedisHyperLogLogQueue kvClient (Batch 0))" _
      "projr (makeRedisGeoSpatialQueue kvClient (Batch 0))"]
  have j: "set (jsonKeys someKeys) = {''get'', ''set''}"
    by (simp add: someKeys_def)
  note a = w[THEN conjunct1, rule_format, OF isl_False_Inr[OF kv_hll], THEN conjunct1]
  note b = v[THEN conjunct2, THEN conjunct1, rule_format, OF isl_False_Inr[OF kv_hll_queue],
      THEN conjunct1]
  note c = w[THEN conjunct2, THEN conjunct2, THEN conjunct1, rule_format,
      OF isl_False_Inr[OF kv_geo], THEN conjunct1]
  note d = v[THEN conjunct2, THEN conjunct2, THEN conjunct2, THEN conjunct1, rule_format,
      OF isl_False_Inr[OF kv_geo_queue], THEN conjunct1]
  note u = w[THEN conjunct2, THEN conjunct2, THEN conjunct2, THEN conjunct2, THEN conjunct2,
      THEN conjunct1, THEN mp, OF isl_False_Inr[OF kv_core]]
  note e = u[THEN conjunct1]
  note f = u[THEN conjunct2, THEN conjunct2, THEN conjunct1]
  have r: "flatNames someKeys \<inter> {''json'', ''multi'', ''pipeline''} = {}"
    by (simp add: flatNames_def someKeys_def redisHyperLogLogKeys_def redisGeoSpatialKeys_def)
  note g = w[THEN conjunct2, THEN conjunct2, THEN conjunct2, THEN conjunct2, THEN conjunct2,
      THEN conjunct2, THEN mp, OF conjI[OF isl_False_Inr[OF kv_core] r]]
  from a b c d e f[unfolded j] g show ?thesis
    by (intro conjI)
qed

end
